theory Spec2Isabelle
  imports Main "HOL-Library.Sublist" "HOL-Library.AList"
begin

section \<open>The file monitor of \<^verbatim>\<open>file_monitor.py\<close>\<close>

text \<open>
  The development embeds \<^verbatim>\<open>IntelligentFileHandler\<close> (the classifier and the debouncer) and
  \<^verbatim>\<open>FileMonitor\<close> (the batcher, the delivery loop and the lifecycle) of
  \<^verbatim>\<open>src/.autocommit-pro/file_monitor.py\<close>.

  Conventions of the model:
  \<^item> a \<^verbatim>\<open>datetime\<close> is an \<open>int\<close>, the number of microseconds since some epoch (the
    resolution of \<^verbatim>\<open>datetime\<close>); \<^verbatim>\<open>(a - b).total_seconds() > s\<close> is \<open>a - b > s * 1000000\<close>;
  \<^item> a Python \<^verbatim>\<open>dict\<close> is an association list in insertion order, since the code iterates
    over its dictionaries;
  \<^item> paths are POSIX paths (\<^verbatim>\<open>os.path\<close> is \<^verbatim>\<open>posixpath\<close>) and strings are lists of
    characters;
  \<^item> every method body runs atomically: the interleaving of the threads inside one method
    is not modelled.
\<close>

subsection \<open>Library functions the classifier calls\<close>

text \<open>\<^verbatim>\<open>str.split(sep)\<close> for a one-character separator.\<close>

fun split_sep :: "char \<Rightarrow> string \<Rightarrow> string list" where
  "split_sep sep [] = [[]]"
| "split_sep sep (c # cs) =
     (if c = sep then [] # split_sep sep cs
      else (case split_sep sep cs of
              [] \<Rightarrow> [[c]]
            | w # ws \<Rightarrow> (c # w) # ws))"

text \<open>\<^verbatim>\<open>sep.join(comps)\<close>.\<close>

fun join_sep :: "char \<Rightarrow> string list \<Rightarrow> string" where
  "join_sep sep [] = []"
| "join_sep sep [w] = w"
| "join_sep sep (w # ws) = w @ sep # join_sep sep ws"

text \<open>
  \<^verbatim>\<open>posixpath.normpath\<close>: the loop body over the components, then the function.
  \<^verbatim>\<open>
  for comp in comps:
      if comp in ('', '.'): continue
      if (comp != '..' or (not initial_slashes and not new_comps) or
           (new_comps and new_comps[-1] == '..')):
          new_comps.append(comp)
      elif new_comps:
          new_comps.pop()
  \<close>
\<close>

definition normpath_step :: "nat \<Rightarrow> string list \<Rightarrow> string \<Rightarrow> string list" where
  "normpath_step initial_slashes new_comps comp0 =
     (if comp0 = [] \<or> comp0 = ''.'' then new_comps
      else if comp0 \<noteq> ''..'' \<or> (initial_slashes = 0 \<and> new_comps = [])
                \<or> (new_comps \<noteq> [] \<and> last new_comps = ''..'')
           then new_comps @ [comp0]
      else if new_comps \<noteq> [] then butlast new_comps
      else new_comps)"

definition normpath :: "string \<Rightarrow> string" where
  "normpath path =
     (if path = [] then ''.''
      else
        let initial_slashes =
              (if take 1 path = ''/'' then
                 (if take 2 path = ''//'' \<and> take 3 path \<noteq> ''///'' then 2 else 1)
               else (0::nat));
            comps = split_sep (CHR ''/'') path;
            new_comps = foldl (normpath_step initial_slashes) [] comps;
            joined = join_sep (CHR ''/'') new_comps;
            res = replicate initial_slashes (CHR ''/'') @ joined
        in if res = [] then ''.'' else res)"

text \<open>\<^verbatim>\<open>posixpath.basename\<close>: what follows the last slash.\<close>

definition basename :: "string \<Rightarrow> string" where
  "basename p = last (split_sep (CHR ''/'') p)"

text \<open>
  \<^verbatim>\<open>Path(file_path).suffix\<close>, on the final component \<open>name\<close> of the path:
  \<^verbatim>\<open>i = name.rfind('.'); return name[i:] if 0 < i < len(name) - 1 else ''\<close>.
  The path has been normalised before, so its final component is its basename (and the
  names \<^verbatim>\<open>.\<close> and the empty one have no suffix either way).
\<close>

definition path_suffix :: "string \<Rightarrow> string" where
  "path_suffix p =
     (let name = basename p;
          parts = split_sep (CHR ''.'') name;
          i = length name - length (last parts) - 1
      in if length parts > 1 \<and> 0 < i \<and> i < length name - 1 then drop i name else [])"

text \<open>
  \<^verbatim>\<open>fnmatch.fnmatch\<close> on POSIX (no case folding): the pattern is translated into a
  sequence of items, and the whole name must match it. \<^verbatim>\<open>*\<close> matches any run of
  characters, \<^verbatim>\<open>?\<close> one character, \<^verbatim>\<open>[seq]\<close> and \<^verbatim>\<open>[!seq]\<close> one character in
  (not in) the set, whose members are characters and ranges \<^verbatim>\<open>a-z\<close>; a \<^verbatim>\<open>[\<close> that is
  never closed stands for itself.
\<close>

datatype glob_item = Star | AnyChar | Lit char | CharClass bool "(char \<times> char) list"

fun find_close :: "string \<Rightarrow> (string \<times> string) option" where
  "find_close [] = None"
| "find_close (c # cs) =
     (if c = CHR '']'' then Some ([], cs)
      else (case find_close cs of
              None \<Rightarrow> None
            | Some (stuff, rest) \<Rightarrow> Some (c # stuff, rest)))"

definition bracket :: "string \<Rightarrow> (bool \<times> string \<times> string) option" where
  "bracket p =
     (let neg = (take 1 p = ''!'');
          p1 = (if neg then drop 1 p else p);
          first_close = (take 1 p1 = '']'');
          p2 = (if first_close then drop 1 p1 else p1)
      in case find_close p2 of
           None \<Rightarrow> None
         | Some (stuff, rest) \<Rightarrow> Some (neg, (if first_close then '']'' else []) @ stuff, rest))"

fun parse_ranges :: "string \<Rightarrow> (char \<times> char) list" where
  "parse_ranges (a # b # c # rest) =
     (if b = CHR ''-'' then (a, c) # parse_ranges rest
      else (a, a) # parse_ranges (b # c # rest))"
| "parse_ranges (a # rest) = (a, a) # parse_ranges rest"
| "parse_ranges [] = []"

lemma find_close_shorter: "find_close p = Some (stuff, rest) \<Longrightarrow> length rest < length p"
  by (induction p arbitrary: stuff rest) (auto split: if_splits option.splits)

lemma bracket_shorter:
  assumes "bracket p = Some (neg, stuff, rest)"
  shows "length rest \<le> length p"
proof -
  define p1 where "p1 = (if take 1 p = ''!'' then drop 1 p else p)"
  define p2 where "p2 = (if take 1 p1 = '']'' then drop 1 p1 else p1)"
  have len: "length p2 \<le> length p" by (simp add: p1_def p2_def)
  have unf: "bracket p =
     (case find_close p2 of
        None \<Rightarrow> None
      | Some (stuff, rest) \<Rightarrow>
          Some (take 1 p = ''!'', (if take 1 p1 = '']'' then '']'' else []) @ stuff, rest))"
    unfolding bracket_def Let_def p1_def p2_def ..
  show ?thesis
  proof (cases "find_close p2")
    case None
    with assms unf show ?thesis by simp
  next
    case (Some sr)
    obtain stuff' rest' where sr: "sr = (stuff', rest')" by (cases sr)
    from assms unf Some sr have "rest' = rest" by simp
    with find_close_shorter [of p2 stuff' rest'] Some sr len show ?thesis by simp
  qed
qed

function translate :: "string \<Rightarrow> glob_item list" where
  "translate [] = []"
| "translate (c # p) =
     (if c = CHR ''*'' then Star # translate p
      else if c = CHR ''?'' then AnyChar # translate p
      else if c = CHR ''['' then
        (case bracket p of
           None \<Rightarrow> Lit c # translate p
         | Some (neg, stuff, rest) \<Rightarrow> CharClass neg (parse_ranges stuff) # translate rest)
      else Lit c # translate p)"
  by pat_completeness auto
termination
  by (relation "measure length") (auto dest: bracket_shorter)

definition in_ranges :: "char \<Rightarrow> (char \<times> char) list \<Rightarrow> bool" where
  "in_ranges c rs =
     list_ex (\<lambda>(lo, hi). (of_char lo :: nat) \<le> of_char c \<and> (of_char c :: nat) \<le> of_char hi) rs"

fun items_match :: "glob_item list \<Rightarrow> string \<Rightarrow> bool" where
  "items_match [] s = (s = [])"
| "items_match (Star # ts) [] = items_match ts []"
| "items_match (Star # ts) (c # s) = (items_match ts (c # s) \<or> items_match (Star # ts) s)"
| "items_match (AnyChar # ts) (c # s) = items_match ts s"
| "items_match (Lit a # ts) (c # s) = (a = c \<and> items_match ts s)"
| "items_match (CharClass neg rs # ts) (c # s) = ((in_ranges c rs \<noteq> neg) \<and> items_match ts s)"
| "items_match (t # ts) [] = False"

definition fnmatch :: "string \<Rightarrow> string \<Rightarrow> bool" where
  "fnmatch name pat = items_match (translate pat) name"

subsection \<open>Configuration\<close>

text \<open>
  The three lists \<^verbatim>\<open>should_ignore_file\<close> reads from the configuration dictionary (each
  defaults to the empty list when its key is absent) and the batch interval in seconds
  (\<^verbatim>\<open>system.monitoring_interval\<close>, default 30).
\<close>

record config =
  exclude_directories :: "string list"
  file_extensions :: "string list"
  ignore_patterns :: "string list"
  monitoring_interval :: int

definition get_default_config :: config where
  "get_default_config =
     \<lparr> exclude_directories = [''.git'', ''__pycache__'', ''node_modules''],
       file_extensions = [''.py'', ''.js'', ''.ts'', ''.html'', ''.css'', ''.md''],
       ignore_patterns = [''*.log'', ''*.tmp'', ''.DS_Store''],
       monitoring_interval = 30 \<rparr>"

subsection \<open>The classifier: \<^verbatim>\<open>should_ignore_file\<close>\<close>

definition temp_patterns :: "string list" where
  "temp_patterns = [''*.tmp'', ''*.temp'', ''*.swp'', ''*.swo'', ''*~'', ''.DS_Store'']"

definition should_ignore_file :: "config \<Rightarrow> string \<Rightarrow> bool" where
  "should_ignore_file cfg path =
     (let file_path = normpath path;
          file_name = basename file_path
      in if list_ex (\<lambda>excluded_dir. sublist excluded_dir file_path) (exclude_directories cfg)
           then True
         else if file_extensions cfg \<noteq> [] \<and> path_suffix file_path \<notin> set (file_extensions cfg)
           then True
         else if list_ex (\<lambda>pattern. fnmatch file_name pattern \<or> fnmatch file_path pattern)
                   (ignore_patterns cfg)
           then True
         else if list_ex (\<lambda>pattern. fnmatch file_name pattern) temp_patterns
           then True
         else False)"

subsection \<open>\<^verbatim>\<open>FileChangeEvent\<close>\<close>

text \<open>
  The state of the file system a constructor reads: \<open>fs p = None\<close> when the path does not
  exist (or cannot be examined), otherwise its size and, for a readable regular file, the
  MD5 digest of its content.
\<close>

record file_info =
  st_size :: nat
  md5_hexdigest :: "string option"

type_synonym filesystem = "string \<Rightarrow> file_info option"

datatype event_type = Created | Modified | Deleted | Moved

record FileChangeEvent =
  file_path :: string
  event_type :: event_type
  timestamp :: int
  file_size :: nat
  file_hash :: string

definition get_file_size :: "filesystem \<Rightarrow> string \<Rightarrow> nat" where
  "get_file_size fs p = (case fs p of None \<Rightarrow> 0 | Some i \<Rightarrow> st_size i)"

definition get_file_hash :: "filesystem \<Rightarrow> string \<Rightarrow> string" where
  "get_file_hash fs p =
     (case fs p of
        None \<Rightarrow> []
      | Some i \<Rightarrow> (case md5_hexdigest i of None \<Rightarrow> [] | Some h \<Rightarrow> h))"

text \<open>
  The constructor, called by the handlers without a timestamp: the timestamp is the clock
  reading \<open>now\<close>, and size and hash are read from the file system at once.
\<close>

definition new_FileChangeEvent ::
    "filesystem \<Rightarrow> int \<Rightarrow> string \<Rightarrow> event_type \<Rightarrow> FileChangeEvent" where
  "new_FileChangeEvent fs now p k =
     \<lparr> file_path = p, event_type = k, timestamp = now,
       file_size = get_file_size fs p, file_hash = get_file_hash fs p \<rparr>"

subsection \<open>The debouncer: \<^verbatim>\<open>IntelligentFileHandler\<close>\<close>

text \<open>
  A notification of the watch library: \<open>dest_path\<close> is \<open>None\<close> when the event object has
  no such attribute.
\<close>

record FileSystemEvent =
  is_directory :: bool
  src_path :: string
  dest_path :: "string option"

record IntelligentFileHandler =
  config :: config
  recent_events :: "(string \<times> FileChangeEvent) list"
  debounce_interval :: int

definition new_IntelligentFileHandler :: "config \<Rightarrow> IntelligentFileHandler" where
  "new_IntelligentFileHandler cfg =
     \<lparr> config = cfg, recent_events = [], debounce_interval = 2 \<rparr>"

definition on_modified ::
    "IntelligentFileHandler \<Rightarrow> FileSystemEvent \<Rightarrow> int \<Rightarrow> filesystem \<Rightarrow> IntelligentFileHandler" where
  "on_modified h event now fs =
     (if is_directory event then h
      else if should_ignore_file (config h) (src_path event) then h
      else
        let p = normpath (src_path event);
            current_event = new_FileChangeEvent fs now p Modified
        in if (case map_of (recent_events h) p of
                 Some previous_event \<Rightarrow> file_hash current_event = file_hash previous_event
               | None \<Rightarrow> False)
           then h
           else h\<lparr>recent_events := AList.update p current_event (recent_events h)\<rparr>)"

definition on_created ::
    "IntelligentFileHandler \<Rightarrow> FileSystemEvent \<Rightarrow> int \<Rightarrow> filesystem \<Rightarrow> IntelligentFileHandler" where
  "on_created h event now fs =
     (if is_directory event then h
      else if should_ignore_file (config h) (src_path event) then h
      else
        let p = normpath (src_path event)
        in h\<lparr>recent_events :=
               AList.update p (new_FileChangeEvent fs now p Created) (recent_events h)\<rparr>)"

definition on_deleted ::
    "IntelligentFileHandler \<Rightarrow> FileSystemEvent \<Rightarrow> int \<Rightarrow> filesystem \<Rightarrow> IntelligentFileHandler" where
  "on_deleted h event now fs =
     (if is_directory event then h
      else if should_ignore_file (config h) (src_path event) then h
      else
        let p = normpath (src_path event)
        in h\<lparr>recent_events :=
               AList.update p (new_FileChangeEvent fs now p Deleted) (recent_events h)\<rparr>)"

definition on_moved ::
    "IntelligentFileHandler \<Rightarrow> FileSystemEvent \<Rightarrow> int \<Rightarrow> filesystem \<Rightarrow> IntelligentFileHandler" where
  "on_moved h event now fs =
     (if is_directory event then h
      else (case dest_path event of
              None \<Rightarrow> h
            | Some dest \<Rightarrow>
                if \<not> should_ignore_file (config h) dest then
                  let p = normpath dest
                  in h\<lparr>recent_events :=
                         AList.update p (new_FileChangeEvent fs now p Moved) (recent_events h)\<rparr>
                else h))"

text \<open>
  What the observer thread does with a notification of kind \<open>k\<close>: it calls the handler's
  method for that kind.
\<close>

fun handle :: "event_type \<Rightarrow> IntelligentFileHandler \<Rightarrow> FileSystemEvent \<Rightarrow> int \<Rightarrow> filesystem
    \<Rightarrow> IntelligentFileHandler" where
  "handle Created h event now fs = on_created h event now fs"
| "handle Modified h event now fs = on_modified h event now fs"
| "handle Deleted h event now fs = on_deleted h event now fs"
| "handle Moved h event now fs = on_moved h event now fs"

text \<open>
  The first loop of \<^verbatim>\<open>cleanup_old_events\<close>: the paths whose pending record is older than
  the debounce interval at \<open>current_time\<close>, in the order of the dictionary.
\<close>

definition expired_files :: "IntelligentFileHandler \<Rightarrow> int \<Rightarrow> string list" where
  "expired_files h current_time =
     map fst (filter (\<lambda>(p, event). current_time - timestamp event > debounce_interval h * 1000000)
                (recent_events h))"

subsection \<open>Collaborators of \<^verbatim>\<open>FileMonitor\<close>: callbacks, the executor, the observer\<close>

text \<open>
  A registered callback is a Python callable on the batch. It returns, raises an exception
  deriving from \<^verbatim>\<open>Exception\<close> (what \<^verbatim>\<open>except Exception\<close> catches), or raises another
  \<^verbatim>\<open>BaseException\<close> (\<^verbatim>\<open>SystemExit\<close>, \<^verbatim>\<open>KeyboardInterrupt\<close>), which that clause lets
  through.
\<close>

datatype callback_result = Returned | RaisedException string | RaisedBaseException string

type_synonym callback = "FileChangeEvent list \<Rightarrow> callback_result"

text \<open>One invocation of a callback: its position in \<^verbatim>\<open>change_callbacks\<close>, its argument, its outcome.\<close>

record callback_call =
  call_index :: nat
  call_batch :: "FileChangeEvent list"
  call_result :: callback_result

datatype error = RuntimeError string | KeyError string

text \<open>
  \<^verbatim>\<open>concurrent.futures.ThreadPoolExecutor\<close>: the tasks submitted and not yet run (each is a
  call of \<^verbatim>\<open>_process_change_batch\<close> on the list kept here), and whether \<^verbatim>\<open>shutdown\<close> was
  called; \<^verbatim>\<open>submit\<close> after \<^verbatim>\<open>shutdown\<close> raises \<^verbatim>\<open>RuntimeError\<close>.
\<close>

record ThreadPoolExecutor =
  shutdown_flag :: bool
  work_queue :: "FileChangeEvent list list"

definition submit :: "ThreadPoolExecutor \<Rightarrow> FileChangeEvent list \<Rightarrow> error + ThreadPoolExecutor" where
  "submit ex task =
     (if shutdown_flag ex then Inl (RuntimeError ''cannot schedule new futures after shutdown'')
      else Inr (ex\<lparr>work_queue := work_queue ex @ [task]\<rparr>))"

text \<open>
  The watch library's \<^verbatim>\<open>Observer\<close> is a \<^verbatim>\<open>threading.Thread\<close>: \<^verbatim>\<open>start\<close> raises
  \<^verbatim>\<open>RuntimeError\<close> on a thread that was started before, \<^verbatim>\<open>join\<close> raises it on a thread that
  was never started, \<^verbatim>\<open>stop\<close> only asks the thread to end, and the thread is alive from its
  start until it ends.
\<close>

record Observer =
  watches :: "string list"
  thread_started :: bool
  stop_requested :: bool

definition schedule :: "Observer \<Rightarrow> string \<Rightarrow> Observer" where
  "schedule ob dir = (if dir \<in> set (watches ob) then ob else ob\<lparr>watches := watches ob @ [dir]\<rparr>)"

definition observer_start :: "Observer \<Rightarrow> error + Observer" where
  "observer_start ob =
     (if thread_started ob then Inl (RuntimeError ''threads can only be started once'')
      else Inr (ob\<lparr>thread_started := True\<rparr>))"

definition observer_stop :: "Observer \<Rightarrow> Observer" where
  "observer_stop ob = ob\<lparr>stop_requested := True\<rparr>"

definition observer_join :: "Observer \<Rightarrow> error + Observer" where
  "observer_join ob =
     (if \<not> thread_started ob then Inl (RuntimeError ''cannot join thread before it is started'')
      else Inr ob)"

definition is_alive :: "Observer \<Rightarrow> bool" where
  "is_alive ob = (thread_started ob \<and> \<not> stop_requested ob)"

subsection \<open>\<^verbatim>\<open>FileMonitor\<close>\<close>

record stats =
  total_events :: int
  ignored_events :: int
  processed_batches :: int
  start_time :: int

text \<open>
  The monitor. Its \<^verbatim>\<open>config\<close> is the one its handler holds. \<open>calls\<close> is not a field of the
  class: it logs every invocation of a callback, in the order they are made.
\<close>

record FileMonitor =
  watch_directory :: string
  observer :: Observer
  event_handler :: IntelligentFileHandler
  pending_changes :: "FileChangeEvent list"
  change_callbacks :: "callback list"
  last_batch_time :: int
  batch_interval :: int
  executor :: ThreadPoolExecutor
  stats :: stats
  calls :: "callback_call list"

text \<open>\<^verbatim>\<open>_load_config\<close>: the parsed file, or the defaults when it is missing or invalid.\<close>

definition load_config :: "config option \<Rightarrow> config" where
  "load_config parsed = (case parsed of None \<Rightarrow> get_default_config | Some cfg \<Rightarrow> cfg)"

definition new_FileMonitor :: "config option \<Rightarrow> string \<Rightarrow> int \<Rightarrow> FileMonitor" where
  "new_FileMonitor parsed dir now =
     (let cfg = load_config parsed
      in \<lparr> watch_directory = dir,
           observer = \<lparr> watches = [], thread_started = False, stop_requested = False \<rparr>,
           event_handler = new_IntelligentFileHandler cfg,
           pending_changes = [],
           change_callbacks = [],
           last_batch_time = now,
           batch_interval = monitoring_interval cfg,
           executor = \<lparr> shutdown_flag = False, work_queue = [] \<rparr>,
           stats = \<lparr> total_events = 0, ignored_events = 0, processed_batches = 0,
                     start_time = now \<rparr>,
           calls = [] \<rparr>)"

definition add_change_callback :: "FileMonitor \<Rightarrow> callback \<Rightarrow> FileMonitor" where
  "add_change_callback m cb = m\<lparr>change_callbacks := change_callbacks m @ [cb]\<rparr>"

text \<open>
  The methods below return the error they raise, if any, together with the monitor as the
  raise leaves it. \<^verbatim>\<open>datetime.now()\<close> is the argument \<open>now\<close>.
\<close>

definition trigger_batch_processing :: "FileMonitor \<Rightarrow> int \<Rightarrow> error option \<times> FileMonitor" where
  "trigger_batch_processing m now =
     (if pending_changes m = [] then (None, m)
      else
        let changes_to_process = pending_changes m;
            m1 = m\<lparr>pending_changes := [],
                   last_batch_time := now,
                   stats := (stats m)\<lparr>processed_batches := processed_batches (stats m) + 1\<rparr>\<rparr>
        in case submit (executor m1) changes_to_process of
             Inl e \<Rightarrow> (Some e, m1)
           | Inr ex \<Rightarrow> (None, m1\<lparr>executor := ex\<rparr>))"

definition process_file_change ::
    "FileMonitor \<Rightarrow> FileChangeEvent \<Rightarrow> int \<Rightarrow> error option \<times> FileMonitor" where
  "process_file_change m event now =
     (let m1 = m\<lparr>pending_changes := pending_changes m @ [event],
                 stats := (stats m)\<lparr>total_events := total_events (stats m) + 1\<rparr>\<rparr>;
          time_since_last_batch = now - last_batch_time m1
      in if time_since_last_batch \<ge> batch_interval m1 * 1000000
            \<or> length (pending_changes m1) \<ge> 10
         then trigger_batch_processing m1 now
         else (None, m1))"

text \<open>
  \<^verbatim>\<open>_process_change_batch\<close>. The dictionary \<^verbatim>\<open>unique_changes\<close> keeps, for each path, the
  position of its first record and the value of its last one; \<^verbatim>\<open>list.sort\<close> is stable, as
  \<open>sort_key\<close> is.
\<close>

definition unique_changes :: "FileChangeEvent list \<Rightarrow> (string \<times> FileChangeEvent) list" where
  "unique_changes changes = foldl (\<lambda>d change. AList.update (file_path change) change d) [] changes"

definition final_changes :: "FileChangeEvent list \<Rightarrow> FileChangeEvent list" where
  "final_changes changes = sort_key timestamp (map snd (unique_changes changes))"

text \<open>
  The loop over the callbacks, from position \<open>i\<close>: an \<^verbatim>\<open>Exception\<close> is caught and printed
  and the loop goes on; any other exception leaves the loop.
\<close>

fun call_callbacks :: "callback list \<Rightarrow> nat \<Rightarrow> FileChangeEvent list \<Rightarrow> callback_call list" where
  "call_callbacks [] i batch = []"
| "call_callbacks (cb # cbs) i batch =
     (let r = cb batch;
          this = \<lparr> call_index = i, call_batch = batch, call_result = r \<rparr>
      in case r of
           Returned \<Rightarrow> this # call_callbacks cbs (Suc i) batch
         | RaisedException e \<Rightarrow> this # call_callbacks cbs (Suc i) batch
         | RaisedBaseException e \<Rightarrow> [this])"

definition process_change_batch :: "callback list \<Rightarrow> FileChangeEvent list \<Rightarrow> callback_call list" where
  "process_change_batch callbacks changes =
     (if changes = [] then []
      else call_callbacks callbacks 0 (final_changes changes))"

text \<open>A worker of the executor runs the oldest task of the queue.\<close>

definition worker_run :: "FileMonitor \<Rightarrow> FileMonitor" where
  "worker_run m =
     (case work_queue (executor m) of
        [] \<Rightarrow> m
      | task # rest \<Rightarrow>
          m\<lparr>executor := (executor m)\<lparr>work_queue := rest\<rparr>,
            calls := calls m @ process_change_batch (change_callbacks m) task\<rparr>)"

text \<open>\<^verbatim>\<open>executor.shutdown(wait=True)\<close>: no new task is accepted, and every queued task has run
  when the call returns.\<close>

definition executor_shutdown :: "FileMonitor \<Rightarrow> FileMonitor" where
  "executor_shutdown m =
     m\<lparr>executor := \<lparr> shutdown_flag = True, work_queue = [] \<rparr>,
       calls := calls m
                @ concat (map (process_change_batch (change_callbacks m)) (work_queue (executor m)))\<rparr>"

definition force_process_changes :: "FileMonitor \<Rightarrow> int \<Rightarrow> error option \<times> FileMonitor" where
  "force_process_changes m now =
     (if pending_changes m \<noteq> [] then trigger_batch_processing m now else (None, m))"

text \<open>One round of the loop of \<^verbatim>\<open>timer_callback\<close>, after its sleep.\<close>

definition timer_callback :: "FileMonitor \<Rightarrow> int \<Rightarrow> error option \<times> FileMonitor" where
  "timer_callback m now =
     (if pending_changes m \<noteq> [] then trigger_batch_processing m now else (None, m))"

text \<open>
  One round of the loop of \<^verbatim>\<open>cleanup_old_events\<close>, after its sleep: the second loop pops each
  expired path and hands its record to \<^verbatim>\<open>_process_file_change\<close>. The clock is read once per
  round.
\<close>

fun settle_expired :: "FileMonitor \<Rightarrow> string list \<Rightarrow> int \<Rightarrow> error option \<times> FileMonitor" where
  "settle_expired m [] now = (None, m)"
| "settle_expired m (p # ps) now =
     (case map_of (recent_events (event_handler m)) p of
        None \<Rightarrow> (Some (KeyError p), m)
      | Some event \<Rightarrow>
          let h = event_handler m;
              m1 = m\<lparr>event_handler := h\<lparr>recent_events := AList.delete p (recent_events h)\<rparr>\<rparr>
          in case process_file_change m1 event now of
               (Some e, m2) \<Rightarrow> (Some e, m2)
             | (None, m2) \<Rightarrow> settle_expired m2 ps now)"

definition cleanup_old_events :: "FileMonitor \<Rightarrow> int \<Rightarrow> error option \<times> FileMonitor" where
  "cleanup_old_events m current_time =
     settle_expired m (expired_files (event_handler m) current_time) current_time"

text \<open>The observer thread hands a notification to the handler while it is alive.\<close>

definition dispatch ::
    "FileMonitor \<Rightarrow> event_type \<Rightarrow> FileSystemEvent \<Rightarrow> int \<Rightarrow> filesystem \<Rightarrow> FileMonitor" where
  "dispatch m k event now fs =
     (if is_alive (observer m) then m\<lparr>event_handler := handle k (event_handler m) event now fs\<rparr>
      else m)"

definition start_monitoring :: "FileMonitor \<Rightarrow> error option \<times> FileMonitor" where
  "start_monitoring m =
     (let m1 = m\<lparr>observer := schedule (observer m) (watch_directory m)\<rparr>
      in case observer_start (observer m1) of
           Inl e \<Rightarrow> (Some e, m1)
         | Inr ob \<Rightarrow> (None, m1\<lparr>observer := ob\<rparr>))"

definition stop_monitoring :: "FileMonitor \<Rightarrow> int \<Rightarrow> error option \<times> FileMonitor" where
  "stop_monitoring m now =
     (let m1 = m\<lparr>observer := observer_stop (observer m)\<rparr>
      in case observer_join (observer m1) of
           Inl e \<Rightarrow> (Some e, m1)
         | Inr ob \<Rightarrow>
             (case (if pending_changes m1 \<noteq> [] then trigger_batch_processing m1 now
                    else (None, m1)) of
                (Some e, m2) \<Rightarrow> (Some e, m2)
              | (None, m2) \<Rightarrow> (None, executor_shutdown m2)))"

text \<open>
  \<^verbatim>\<open>get_stats\<close>: the counters, the uptime (in microseconds here; its formatted text is left
  out), and two lengths.
\<close>

record stats_snapshot = stats +
  uptime :: int
  pending_changes_count :: nat
  active_callbacks :: nat

definition get_stats :: "FileMonitor \<Rightarrow> int \<Rightarrow> stats_snapshot" where
  "get_stats m current_time =
     \<lparr> total_events = total_events (stats m),
       ignored_events = ignored_events (stats m),
       processed_batches = processed_batches (stats m),
       start_time = start_time (stats m),
       uptime = current_time - start_time (stats m),
       pending_changes_count = length (pending_changes m),
       active_callbacks = length (change_callbacks m) \<rparr>"

subsection \<open>Runs of the system\<close>

text \<open>
  What can happen to a monitor: a notification from the observer thread, a round of the
  cleanup thread or of the timer thread, a worker of the executor running a task, and the
  calls of the public methods. A run applies a sequence of these, each atomically; an error
  ends the method that raised it and the run goes on.
\<close>

datatype action =
    Notify event_type FileSystemEvent int filesystem
  | CleanupTick int
  | TimerTick int
  | WorkerRun
  | AddCallback callback
  | ForceProcess int
  | Start
  | Stop int

fun step :: "FileMonitor \<Rightarrow> action \<Rightarrow> error option \<times> FileMonitor" where
  "step m (Notify k event now fs) = (None, dispatch m k event now fs)"
| "step m (CleanupTick now) = cleanup_old_events m now"
| "step m (TimerTick now) = timer_callback m now"
| "step m WorkerRun = (None, worker_run m)"
| "step m (AddCallback cb) = (None, add_change_callback m cb)"
| "step m (ForceProcess now) = force_process_changes m now"
| "step m Start = start_monitoring m"
| "step m (Stop now) = stop_monitoring m now"

definition run :: "FileMonitor \<Rightarrow> action list \<Rightarrow> FileMonitor" where
  "run m as = foldl (\<lambda>m a. snd (step m a)) m as"

subsection \<open>Observations on a run\<close>

text \<open>
  The records handed to the batcher and not yet taken by a worker, oldest first: the tasks
  queued for the executor, then \<^verbatim>\<open>pending_changes\<close>.
\<close>

definition accumulated :: "FileMonitor \<Rightarrow> FileChangeEvent list" where
  "accumulated m = concat (work_queue (executor m)) @ pending_changes m"


text \<open>
  The actions that leave alone a pending record of the path of \<open>event\<close> whose content hash is
  \<open>h\<close>: a Modified notification for that path that reads the same hash, and a round of the
  cleanup thread no later than \<open>deadline\<close>.
\<close>

fun quiet :: "FileSystemEvent \<Rightarrow> string \<Rightarrow> int \<Rightarrow> action \<Rightarrow> bool" where
  "quiet event h deadline (Notify k e now fs) =
     (k = Modified \<and> e = event \<and> get_file_hash fs (normpath (src_path event)) = h)"
| "quiet event h deadline (CleanupTick current_time) = (current_time \<le> deadline)"
| "quiet event h deadline a = False"

text \<open>
  The notification of kind \<open>kind\<close> passes the guards of its handler method (it is not about a
  directory, and the path the method tests is not ignored), and the record the method
  builds is keyed by \<open>p\<close>: the normalised destination for a Moved notification, the
  normalised source path otherwise.
\<close>

definition accepted :: "config \<Rightarrow> event_type \<Rightarrow> FileSystemEvent \<Rightarrow> string \<Rightarrow> bool" where
  "accepted cfg kind event p =
     (\<not> is_directory event
      \<and> (case kind of
            Moved \<Rightarrow>
              (case dest_path event of
                 None \<Rightarrow> False
               | Some dest \<Rightarrow> \<not> should_ignore_file cfg dest \<and> normpath dest = p)
          | _ \<Rightarrow> \<not> should_ignore_file cfg (src_path event) \<and> normpath (src_path event) = p))"

subsection \<open>Concrete inputs\<close>

text \<open>A file system with two regular files, and notifications about them.\<close>

definition example_fs :: filesystem where
  "example_fs =
     (\<lambda>p. if p = ''/repo/a.py'' then Some \<lparr> st_size = 2, md5_hexdigest = Some ''h1'' \<rparr>
          else if p = ''/repo/b.py'' then Some \<lparr> st_size = 3, md5_hexdigest = Some ''h2'' \<rparr>
          else None)"

definition example_move :: FileSystemEvent where
  "example_move =
     \<lparr> is_directory = False, src_path = ''/repo/a.py'', dest_path = Some ''/repo/b.py'' \<rparr>"

text \<open>Three settled records, two of them for the same path.\<close>

definition rec_a_modified :: FileChangeEvent where
  "rec_a_modified = \<lparr> file_path = ''/repo/a.py'', event_type = Modified, timestamp = 5000000,
       file_size = 2, file_hash = ''h1'' \<rparr>"

definition rec_b_created :: FileChangeEvent where
  "rec_b_created = \<lparr> file_path = ''/repo/b.py'', event_type = Created, timestamp = 3000000,
       file_size = 3, file_hash = ''h2'' \<rparr>"

definition rec_a_deleted :: FileChangeEvent where
  "rec_a_deleted = \<lparr> file_path = ''/repo/a.py'', event_type = Deleted, timestamp = 9000000,
       file_size = 0, file_hash = [] \<rparr>"

definition example_changes :: "FileChangeEvent list" where
  "example_changes = [rec_a_modified, rec_b_created, rec_a_deleted]"




text \<open>A run that settles one record, flushes it and delivers it.\<close>

definition example_event_a :: FileSystemEvent where
  "example_event_a = \<lparr> is_directory = False, src_path = ''/repo/a.py'', dest_path = None \<rparr>"

definition example_run :: "action list" where
  "example_run =
     [AddCallback (\<lambda>batch. Returned), Start,
      Notify Created example_event_a 1000000 example_fs,
      CleanupTick 4000000, ForceProcess 5000000, WorkerRun]"

text \<open>A started monitor, and the file system once \<^verbatim>\<open>/repo/a.py\<close> is deleted.\<close>

definition example_started :: FileMonitor where
  "example_started = run (new_FileMonitor None ''/repo'' 0) [Start]"

definition example_fs_after_delete :: filesystem where
  "example_fs_after_delete =
     (\<lambda>p. if p = ''/repo/b.py'' then Some \<lparr> st_size = 3, md5_hexdigest = Some ''h2'' \<rparr>
          else None)"

text \<open>The file system once the content of \<^verbatim>\<open>/repo/a.py\<close> has changed.\<close>

definition example_fs_changed :: filesystem where
  "example_fs_changed =
     (\<lambda>p. if p = ''/repo/a.py'' then Some \<lparr> st_size = 5, md5_hexdigest = Some ''h9'' \<rparr>
          else if p = ''/repo/b.py'' then Some \<lparr> st_size = 3, md5_hexdigest = Some ''h2'' \<rparr>
          else None)"

text \<open>A monitor stopped half a second after a file was created.\<close>

definition example_stopped :: FileMonitor where
  "example_stopped =
     run (new_FileMonitor None ''/repo'' 0)
       [AddCallback (\<lambda>batch. Returned), Start,
        Notify Created example_event_a 1000000 example_fs,
        Stop 1500000]"

section \<open>Properties\<close>

subsection \<open>The classifier\<close>

text \<open>
  Claim C9. The excluded-directory check of \<^verbatim>\<open>should_ignore_file\<close> is substring containment
  on the normalised path string: whenever a configured excluded directory name occurs
  anywhere in the normalised path, the path is ignored. The witness is the excluded name
  \<^verbatim>\<open>.git\<close> and the file \<^verbatim>\<open>/repo/src/a.github.py\<close>, which lies under no directory named
  \<^verbatim>\<open>.git\<close> and is ignored for no other reason.
\<close>

theorem excluded_directory_is_substring_test:
  assumes "excluded_dir \<in> set (exclude_directories cfg)"
      and "sublist excluded_dir (normpath path)"
  shows "should_ignore_file cfg path"
proof -
  from assms have "list_ex (\<lambda>d. sublist d (normpath path)) (exclude_directories cfg)"
    unfolding list_ex_iff by blast
  then show ?thesis
    by (simp add: should_ignore_file_def Let_def)
qed

theorem excluded_directory_is_substring_test_witness:
  "''.git'' \<in> set (exclude_directories get_default_config)
   \<and> sublist ''.git'' (normpath ''/repo/src/a.github.py'')
   \<and> ''.git'' \<notin> set (split_sep (CHR ''/'') (normpath ''/repo/src/a.github.py''))
   \<and> should_ignore_file get_default_config ''/repo/src/a.github.py''
   \<and> \<not> should_ignore_file (get_default_config\<lparr>exclude_directories := []\<rparr>)
          ''/repo/src/a.github.py''"
proof -
  have member: "''.git'' \<in> set (exclude_directories get_default_config)"
    by (simp add: get_default_config_def)
  have np: "normpath ''/repo/src/a.github.py'' = ''/repo/src/a.github.py''"
    by code_simp
  have sub: "sublist ''.git'' (normpath ''/repo/src/a.github.py'')"
    unfolding np by code_simp
  have segs: "''.git'' \<notin> set (split_sep (CHR ''/'') (normpath ''/repo/src/a.github.py''))"
    unfolding np by code_simp
  have other: "\<not> should_ignore_file (get_default_config\<lparr>exclude_directories := []\<rparr>)
          ''/repo/src/a.github.py''"
    by code_simp
  from excluded_directory_is_substring_test [OF member sub] member sub segs other
  show ?thesis by blast
qed

subsection \<open>The debouncer\<close>

lemma length_update_le: "length (AList.update k v al) \<le> Suc (length al)"
  by (induction al) auto

text \<open>
  Claim C10. A Moved notification without a destination path changes nothing. With a
  destination \<open>dest\<close>, \<^verbatim>\<open>on_moved\<close> leaves the pending record of every path other than the
  normalised destination as it was (so none is created for the source path, which differs
  from the destination), adds at most one entry to \<^verbatim>\<open>recent_events\<close>, and, when it changes
  the handler at all, the record now pending for the normalised destination is the new one
  of kind Moved; it does so for every destination that is a file and is not ignored.
\<close>

theorem on_moved_records_destination_only:
  "(dest_path event = None \<longrightarrow> on_moved h event now fs = h)
   \<and> (\<forall>dest. dest_path event = Some dest \<longrightarrow>
         (\<forall>q. q \<noteq> normpath dest \<longrightarrow>
              map_of (recent_events (on_moved h event now fs)) q = map_of (recent_events h) q)
         \<and> (normpath (src_path event) \<noteq> normpath dest \<longrightarrow>
              map_of (recent_events (on_moved h event now fs)) (normpath (src_path event))
                = map_of (recent_events h) (normpath (src_path event)))
         \<and> length (recent_events (on_moved h event now fs)) \<le> Suc (length (recent_events h))
         \<and> (on_moved h event now fs = h
              \<or> map_of (recent_events (on_moved h event now fs)) (normpath dest)
                   = Some (new_FileChangeEvent fs now (normpath dest) Moved))
         \<and> (\<not> is_directory event \<and> \<not> should_ignore_file (config h) dest \<longrightarrow>
              map_of (recent_events (on_moved h event now fs)) (normpath dest)
                = Some (new_FileChangeEvent fs now (normpath dest) Moved)))"
  by (auto simp: on_moved_def Let_def update_conv' length_update_le)

theorem on_moved_records_destination_only_witness:
  "recent_events
     (on_moved (new_IntelligentFileHandler get_default_config) example_move 7000000 example_fs)
     = [(''/repo/b.py'',
         \<lparr> file_path = ''/repo/b.py'', event_type = Moved, timestamp = 7000000,
           file_size = 3, file_hash = ''h2'' \<rparr>)]
   \<and> map_of (recent_events
        (on_moved (new_IntelligentFileHandler get_default_config) example_move 7000000 example_fs))
        ''/repo/a.py'' = None
   \<and> on_moved (new_IntelligentFileHandler get_default_config)
         (example_move\<lparr>dest_path := None\<rparr>) 7000000 example_fs
       = new_IntelligentFileHandler get_default_config"
proof -
  let ?h = "new_IntelligentFileHandler get_default_config"
  let ?r = "\<lparr> file_path = ''/repo/b.py'', event_type = Moved, timestamp = 7000000,
           file_size = 3, file_hash = ''h2'' \<rparr>"
  have dest: "dest_path example_move = Some ''/repo/b.py''"
    by (simp add: example_move_def)
  have np_dest: "normpath ''/repo/b.py'' = ''/repo/b.py''" by code_simp
  have np_src: "normpath (src_path example_move) = ''/repo/a.py''"
    unfolding example_move_def by code_simp
  have keep: "\<not> is_directory example_move \<and> \<not> should_ignore_file (config ?h) ''/repo/b.py''"
    unfolding example_move_def new_IntelligentFileHandler_def by code_simp
  have empty: "recent_events ?h = []"
    by (simp add: new_IntelligentFileHandler_def)
  have ev: "new_FileChangeEvent example_fs 7000000 ''/repo/b.py'' Moved = ?r"
    by (simp add: new_FileChangeEvent_def get_file_size_def get_file_hash_def example_fs_def)
  note main = on_moved_records_destination_only [of example_move ?h 7000000 example_fs]
  from main dest keep np_dest ev
  have stored: "map_of (recent_events (on_moved ?h example_move 7000000 example_fs)) ''/repo/b.py''
      = Some ?r"
    by simp
  from main dest np_dest np_src empty
  have src: "map_of (recent_events (on_moved ?h example_move 7000000 example_fs)) ''/repo/a.py''
      = None"
    by simp
  from main dest empty
  have len: "length (recent_events (on_moved ?h example_move 7000000 example_fs)) \<le> Suc 0"
    by simp
  have none: "on_moved ?h (example_move\<lparr>dest_path := None\<rparr>) 7000000 example_fs = ?h"
    using on_moved_records_destination_only
            [of "example_move\<lparr>dest_path := None\<rparr>" ?h 7000000 example_fs]
    by simp
  from stored len
  have "recent_events (on_moved ?h example_move 7000000 example_fs) = [(''/repo/b.py'', ?r)]"
    by (cases "recent_events (on_moved ?h example_move 7000000 example_fs)")
       (auto split: if_splits)
  with src none show ?thesis by simp
qed

subsection \<open>The batcher\<close>

lemma unique_changes_snoc:
  "unique_changes (cs @ [c]) = AList.update (file_path c) c (unique_changes cs)"
  by (simp add: unique_changes_def)

lemma unique_changes_Nil: "unique_changes [] = []"
  by (simp add: unique_changes_def)

lemma distinct_unique_changes: "distinct (map fst (unique_changes cs))"
  by (induction cs rule: rev_induct)
     (simp_all add: unique_changes_Nil unique_changes_snoc distinct_update)

lemma keys_unique_changes: "fst ` set (unique_changes cs) = file_path ` set cs"
  by (induction cs rule: rev_induct)
     (auto simp: unique_changes_Nil unique_changes_snoc dom_update)

lemma map_of_unique_changes:
  "map_of (unique_changes cs) p =
     (if p \<in> file_path ` set cs then Some (last (filter (\<lambda>c. file_path c = p) cs)) else None)"
  by (induction cs rule: rev_induct)
     (auto simp: unique_changes_Nil unique_changes_snoc update_conv')

lemma unique_changes_entry:
  assumes "(p, r) \<in> set (unique_changes cs)"
  shows "file_path r = p \<and> r = last (filter (\<lambda>c. file_path c = p) cs)"
proof -
  from assms distinct_unique_changes have "map_of (unique_changes cs) p = Some r"
    by (rule map_of_is_SomeI [rotated])
  then have r: "p \<in> file_path ` set cs" "r = last (filter (\<lambda>c. file_path c = p) cs)"
    by (auto simp: map_of_unique_changes split: if_splits)
  then have "filter (\<lambda>c. file_path c = p) cs \<noteq> []"
    by (auto simp: filter_empty_conv)
  then have "last (filter (\<lambda>c. file_path c = p) cs) \<in> set (filter (\<lambda>c. file_path c = p) cs)"
    by (rule last_in_set)
  with r show ?thesis by simp
qed

lemma paths_of_unique_changes: "map file_path (map snd (unique_changes cs)) = map fst (unique_changes cs)"
  by (auto dest: unique_changes_entry)

lemma set_final_changes: "set (final_changes cs) = snd ` set (unique_changes cs)"
  by (simp add: final_changes_def)

lemma final_changes_paths: "file_path ` set (final_changes cs) = file_path ` set cs"
proof -
  have "file_path ` set (final_changes cs) = set (map file_path (map snd (unique_changes cs)))"
    by (simp add: set_final_changes image_image)
  also have "\<dots> = fst ` set (unique_changes cs)"
    unfolding paths_of_unique_changes by simp
  finally show ?thesis by (simp add: keys_unique_changes)
qed

lemma final_changes_distinct: "distinct (map file_path (final_changes cs))"
proof -
  have "distinct (map file_path (map snd (unique_changes cs)))"
    unfolding paths_of_unique_changes by (rule distinct_unique_changes)
  then have "distinct (map snd (unique_changes cs)) \<and> inj_on file_path (set (map snd (unique_changes cs)))"
    by (simp only: distinct_map)
  then show ?thesis
    by (simp add: final_changes_def distinct_map)
qed

lemma final_changes_latest:
  assumes "r \<in> set (final_changes cs)"
  shows "r = last (filter (\<lambda>c. file_path c = file_path r) cs)"
proof -
  from assms have "r \<in> snd ` set (unique_changes cs)"
    by (simp add: set_final_changes)
  then obtain e where "e \<in> set (unique_changes cs)" and "r = snd e"
    by blast
  then have "(fst e, r) \<in> set (unique_changes cs)"
    by simp
  from unique_changes_entry [OF this]
  have fp: "file_path r = fst e" and l: "r = last (filter (\<lambda>c. file_path c = fst e) cs)"
    by blast+
  show ?thesis unfolding fp by (rule l)
qed

lemma final_changes_sorted: "sorted (map timestamp (final_changes cs))"
  by (simp add: final_changes_def)

lemma call_callbacks_batch: "c \<in> set (call_callbacks cbs i batch) \<Longrightarrow> call_batch c = batch"
  by (induction cbs arbitrary: i) (auto simp: Let_def split: callback_result.splits)

lemma trigger_submits_accumulation:
  "pending_changes m \<noteq> [] \<Longrightarrow> \<not> shutdown_flag (executor m) \<Longrightarrow>
     work_queue (executor (snd (trigger_batch_processing m now)))
       = work_queue (executor m) @ [pending_changes m]"
  by (simp add: trigger_batch_processing_def submit_def Let_def)

lemma process_change_batch_argument:
  "c \<in> set (process_change_batch callbacks changes) \<Longrightarrow> call_batch c = final_changes changes"
  by (auto simp: process_change_batch_def dest: call_callbacks_batch split: if_splits)


text \<open>
  Claim C4. A flush hands the accumulation to \<^verbatim>\<open>_process_change_batch\<close>, and the batch
  every callback receives is \<open>final_changes\<close> of it: each accumulated path occurs in it
  exactly once, with the record that was accumulated last for that path, and the batch is
  sorted by timestamp, non-decreasing.
\<close>

theorem flushed_batch_deduplicated_and_sorted:
  "distinct (map file_path (final_changes changes))
   \<and> file_path ` set (final_changes changes) = file_path ` set changes
   \<and> (\<forall>r \<in> set (final_changes changes).
         r = last (filter (\<lambda>c. file_path c = file_path r) changes))
   \<and> sorted (map timestamp (final_changes changes))
   \<and> (\<forall>c \<in> set (process_change_batch callbacks changes). call_batch c = final_changes changes)
   \<and> (pending_changes m \<noteq> [] \<and> \<not> shutdown_flag (executor m) \<longrightarrow>
         work_queue (executor (snd (trigger_batch_processing m now)))
           = work_queue (executor m) @ [pending_changes m])"
  using final_changes_distinct [of changes] final_changes_paths [of changes]
    final_changes_latest [of _ changes] final_changes_sorted [of changes]
    process_change_batch_argument [of _ callbacks changes]
    trigger_submits_accumulation [of m now]
  by blast

theorem flushed_batch_deduplicated_and_sorted_witness:
  "final_changes example_changes = [rec_b_created, rec_a_deleted]
   \<and> rec_a_deleted = last (filter (\<lambda>c. file_path c = ''/repo/a.py'') example_changes)
   \<and> distinct (map file_path (final_changes example_changes))
   \<and> sorted (map timestamp (final_changes example_changes))
   \<and> map call_batch (process_change_batch [\<lambda>batch. Returned] example_changes)
       = [[rec_b_created, rec_a_deleted]]"
proof -
  have val: "final_changes example_changes = [rec_b_created, rec_a_deleted]"
    by code_simp
  have mem: "rec_a_deleted \<in> set (final_changes example_changes)"
    unfolding val by simp
  have path: "file_path rec_a_deleted = ''/repo/a.py''"
    by (simp add: rec_a_deleted_def)
  note main = flushed_batch_deduplicated_and_sorted
                [of example_changes "[\<lambda>batch. Returned]" "new_FileMonitor None ''/repo'' 0" 0]
  from main mem path
  have latest: "rec_a_deleted = last (filter (\<lambda>c. file_path c = ''/repo/a.py'') example_changes)"
    by metis
  have calls: "map call_batch (process_change_batch [\<lambda>batch. Returned] example_changes)
       = [[rec_b_created, rec_a_deleted]]"
    by (simp add: process_change_batch_def example_changes_def val [unfolded example_changes_def])
  from main val latest calls show ?thesis by simp
qed

subsection \<open>Delivery to the callbacks\<close>





subsection \<open>No empty batch\<close>

lemma final_changes_nonempty: "changes \<noteq> [] \<Longrightarrow> final_changes changes \<noteq> []"
proof
  assume "changes \<noteq> []" and "final_changes changes = []"
  then have "file_path ` set changes = {}"
    using final_changes_paths [of changes] by simp
  with \<open>changes \<noteq> []\<close> show False by simp
qed

lemma process_change_batch_nonempty:
  "c \<in> set (process_change_batch callbacks changes) \<Longrightarrow> call_batch c \<noteq> []"
  using process_change_batch_argument [of c callbacks changes] final_changes_nonempty [of changes]
  by (cases "changes = []") (simp_all add: process_change_batch_def)

lemma trigger_keeps_queue_nonempty:
  "[] \<notin> set (work_queue (executor m)) \<Longrightarrow>
     [] \<notin> set (work_queue (executor (snd (trigger_batch_processing m now))))"
  by (auto simp: trigger_batch_processing_def submit_def Let_def)

lemma trigger_calls: "calls (snd (trigger_batch_processing m now)) = calls m"
  by (simp add: trigger_batch_processing_def submit_def Let_def)

lemma process_file_change_keeps_queue_nonempty:
  "[] \<notin> set (work_queue (executor m)) \<Longrightarrow>
     [] \<notin> set (work_queue (executor (snd (process_file_change m event now))))"
  by (auto simp: process_file_change_def Let_def intro!: trigger_keeps_queue_nonempty)

lemma process_file_change_calls: "calls (snd (process_file_change m event now)) = calls m"
  by (simp add: process_file_change_def Let_def trigger_calls)

lemma settle_expired_keeps_queue_nonempty:
  "[] \<notin> set (work_queue (executor m)) \<Longrightarrow>
     [] \<notin> set (work_queue (executor (snd (settle_expired m ps now))))"
proof (induction ps arbitrary: m)
  case Nil
  then show ?case by simp
next
  case (Cons p ps)
  show ?case
  proof (cases "map_of (recent_events (event_handler m)) p")
    case None
    with Cons.prems show ?thesis by simp
  next
    case (Some event)
    define m1 where "m1 = m\<lparr>event_handler := (event_handler m)
        \<lparr>recent_events := AList.delete p (recent_events (event_handler m))\<rparr>\<rparr>"
    obtain err m2 where pfc: "process_file_change m1 event now = (err, m2)"
      by (cases "process_file_change m1 event now")
    from Cons.prems have "[] \<notin> set (work_queue (executor m1))"
      by (simp add: m1_def)
    from process_file_change_keeps_queue_nonempty [OF this, of event now] pfc
    have m2: "[] \<notin> set (work_queue (executor m2))" by simp
    show ?thesis
    proof (cases err)
      case None
      with Some pfc Cons.IH [OF m2] show ?thesis
        by (simp add: Let_def m1_def [symmetric])
    next
      case (Some e)
      with \<open>map_of (recent_events (event_handler m)) p = Some event\<close> pfc m2 show ?thesis
        by (simp add: Let_def m1_def [symmetric])
    qed
  qed
qed

lemma settle_expired_calls: "calls (snd (settle_expired m ps now)) = calls m"
proof (induction ps arbitrary: m)
  case Nil
  show ?case by simp
next
  case (Cons p ps)
  show ?case
  proof (cases "map_of (recent_events (event_handler m)) p")
    case None
    then show ?thesis by simp
  next
    case (Some event)
    define m1 where "m1 = m\<lparr>event_handler := (event_handler m)
        \<lparr>recent_events := AList.delete p (recent_events (event_handler m))\<rparr>\<rparr>"
    obtain err m2 where pfc: "process_file_change m1 event now = (err, m2)"
      by (cases "process_file_change m1 event now")
    have m2: "calls m2 = calls m"
      using process_file_change_calls [of m1 event now] pfc by (simp add: m1_def)
    show ?thesis
      using Some pfc m2 Cons.IH [of m2]
      by (cases err) (simp_all add: Let_def m1_def [symmetric])
  qed
qed

lemma step_keeps_batches_nonempty:
  assumes "[] \<notin> set (work_queue (executor m))"
      and "\<forall>c \<in> set (calls m). call_batch c \<noteq> []"
  shows "[] \<notin> set (work_queue (executor (snd (step m a))))
         \<and> (\<forall>c \<in> set (calls (snd (step m a))). call_batch c \<noteq> [])"
proof (cases a)
  case (Notify k event now fs)
  with assms show ?thesis by (simp add: dispatch_def)
next
  case (CleanupTick now)
  with assms show ?thesis
    by (simp add: cleanup_old_events_def settle_expired_calls settle_expired_keeps_queue_nonempty)
next
  case (TimerTick now)
  with assms show ?thesis
    by (simp add: timer_callback_def trigger_calls trigger_keeps_queue_nonempty)
next
  case WorkerRun
  with assms show ?thesis
    by (auto simp: worker_run_def split: list.splits dest: process_change_batch_nonempty)
next
  case (AddCallback cb)
  with assms show ?thesis by (simp add: add_change_callback_def)
next
  case (ForceProcess now)
  with assms show ?thesis
    by (simp add: force_process_changes_def trigger_calls trigger_keeps_queue_nonempty)
next
  case Start
  with assms show ?thesis
    by (simp add: start_monitoring_def Let_def split: sum.splits)
next
  case (Stop now)
  define m1 where "m1 = m\<lparr>observer := observer_stop (observer m)\<rparr>"
  have q1: "[] \<notin> set (work_queue (executor m1))" and c1: "calls m1 = calls m"
    using assms by (simp_all add: m1_def)
  obtain err m2 where t: "trigger_batch_processing m1 now = (err, m2)"
    by (cases "trigger_batch_processing m1 now")
  have q2: "[] \<notin> set (work_queue (executor m2))" and c2: "calls m2 = calls m"
    using trigger_keeps_queue_nonempty [OF q1, of now] trigger_calls [of m1 now] t c1
    by simp_all
  have sh: "\<And>m'. [] \<notin> set (work_queue (executor m')) \<Longrightarrow> calls m' = calls m \<Longrightarrow>
      [] \<notin> set (work_queue (executor (executor_shutdown m')))
      \<and> (\<forall>c \<in> set (calls (executor_shutdown m')). call_batch c \<noteq> [])"
    using assms(2) by (auto simp: executor_shutdown_def dest: process_change_batch_nonempty)
  show ?thesis
    using Stop q1 c1 q2 c2 t sh [OF q1 c1] sh [OF q2 c2] assms(2)
    by (cases err)
       (auto simp: stop_monitoring_def Let_def m1_def [symmetric] split: sum.splits)
qed

lemma run_keeps_batches_nonempty:
  assumes "[] \<notin> set (work_queue (executor m))"
      and "\<forall>c \<in> set (calls m). call_batch c \<noteq> []"
  shows "[] \<notin> set (work_queue (executor (run m as)))
         \<and> (\<forall>c \<in> set (calls (run m as)). call_batch c \<noteq> [])"
  using assms
proof (induction as arbitrary: m)
  case Nil
  then show ?case by (simp add: run_def)
next
  case (Cons a as)
  from step_keeps_batches_nonempty [OF Cons.prems, of a]
  have "[] \<notin> set (work_queue (executor (run (snd (step m a)) as)))
         \<and> (\<forall>c \<in> set (calls (run (snd (step m a)) as)). call_batch c \<noteq> [])"
    by (intro Cons.IH) simp_all
  then show ?case by (simp add: run_def)
qed


text \<open>
  Claim C5. In every run from a new monitor, no callback is ever invoked on an empty batch
  and no empty task is ever queued for the executor; a flush attempt on an empty
  accumulation (direct, forced, or by the timer) returns the monitor unchanged, and
  \<^verbatim>\<open>_process_change_batch\<close> on no changes invokes no callback.
\<close>

theorem delivered_batch_never_empty:
  "(\<forall>c \<in> set (calls (run (new_FileMonitor parsed dir t0) as)). call_batch c \<noteq> [])
   \<and> [] \<notin> set (work_queue (executor (run (new_FileMonitor parsed dir t0) as)))
   \<and> (pending_changes m = [] \<longrightarrow>
        trigger_batch_processing m now = (None, m)
        \<and> force_process_changes m now = (None, m)
        \<and> timer_callback m now = (None, m))
   \<and> process_change_batch callbacks [] = []"
proof -
  have "[] \<notin> set (work_queue (executor (new_FileMonitor parsed dir t0)))"
    and "\<forall>c \<in> set (calls (new_FileMonitor parsed dir t0)). call_batch c \<noteq> []"
    by (simp_all add: new_FileMonitor_def Let_def)
  from run_keeps_batches_nonempty [OF this, of as] show ?thesis
    by (simp add: trigger_batch_processing_def force_process_changes_def timer_callback_def
          process_change_batch_def)
qed

theorem delivered_batch_never_empty_witness:
  "map call_batch (calls (run (new_FileMonitor None ''/repo'' 0) example_run))
     = [[\<lparr> file_path = ''/repo/a.py'', event_type = Created, timestamp = 1000000,
           file_size = 2, file_hash = ''h1'' \<rparr>]]
   \<and> pending_changes (new_FileMonitor None ''/repo'' 0) = []
   \<and> force_process_changes (new_FileMonitor None ''/repo'' 0) 5000000
       = (None, new_FileMonitor None ''/repo'' 0)
   \<and> calls (run (new_FileMonitor None ''/repo'' 0)
              [AddCallback (\<lambda>batch. Returned), Start, ForceProcess 5000000, WorkerRun]) = []"
proof -
  let ?m0 = "new_FileMonitor None ''/repo'' 0"
  have empty: "pending_changes ?m0 = []"
    by (simp add: new_FileMonitor_def Let_def)
  note main = delivered_batch_never_empty [of None "''/repo''" 0 example_run ?m0 5000000 "[]"]
  have batches: "map call_batch (calls (run ?m0 example_run))
     = [[\<lparr> file_path = ''/repo/a.py'', event_type = Created, timestamp = 1000000,
           file_size = 2, file_hash = ''h1'' \<rparr>]]"
    by code_simp
  from main empty have noop: "force_process_changes ?m0 5000000 = (None, ?m0)"
    by blast
  have quiet: "calls (run ?m0
              [AddCallback (\<lambda>batch. Returned), Start, ForceProcess 5000000, WorkerRun]) = []"
    by code_simp
  from batches empty noop quiet show ?thesis by blast
qed

subsection \<open>Settling\<close>

text \<open>
  While the executor accepts tasks, a round of the cleanup thread raises nothing, hands each
  expired record to the batcher in the order of the dictionary, and leaves the others
  pending.
\<close>

lemma trigger_accumulated:
  assumes "\<not> shutdown_flag (executor m)"
  shows "fst (trigger_batch_processing m now) = None"
    and "accumulated (snd (trigger_batch_processing m now)) = accumulated m"
    and "event_handler (snd (trigger_batch_processing m now)) = event_handler m"
    and "observer (snd (trigger_batch_processing m now)) = observer m"
    and "\<not> shutdown_flag (executor (snd (trigger_batch_processing m now)))"
  using assms
  by (simp_all add: trigger_batch_processing_def submit_def Let_def accumulated_def)

lemma process_file_change_accumulated:
  assumes "\<not> shutdown_flag (executor m)"
  shows "fst (process_file_change m event now) = None"
    and "accumulated (snd (process_file_change m event now)) = accumulated m @ [event]"
    and "event_handler (snd (process_file_change m event now)) = event_handler m"
    and "observer (snd (process_file_change m event now)) = observer m"
    and "\<not> shutdown_flag (executor (snd (process_file_change m event now)))"
proof -
  define m1 where "m1 = m\<lparr>pending_changes := pending_changes m @ [event],
                 stats := (stats m)\<lparr>total_events := total_events (stats m) + 1\<rparr>\<rparr>"
  have m1: "\<not> shutdown_flag (executor m1)" "accumulated m1 = accumulated m @ [event]"
    "event_handler m1 = event_handler m" "observer m1 = observer m"
    using assms by (simp_all add: m1_def accumulated_def)
  have pfc: "process_file_change m event now = trigger_batch_processing m1 now
      \<or> process_file_change m event now = (None, m1)"
    by (simp add: process_file_change_def Let_def m1_def)
  from pfc m1 trigger_accumulated [OF m1(1), of now]
  show "fst (process_file_change m event now) = None"
    and "accumulated (snd (process_file_change m event now)) = accumulated m @ [event]"
    and "event_handler (snd (process_file_change m event now)) = event_handler m"
    and "observer (snd (process_file_change m event now)) = observer m"
    and "\<not> shutdown_flag (executor (snd (process_file_change m event now)))"
    by auto
qed

lemma settle_expired_accumulated:
  assumes "\<not> shutdown_flag (executor m)"
      and "distinct ps"
      and "\<forall>p \<in> set ps. map_of (recent_events (event_handler m)) p \<noteq> None"
  shows "fst (settle_expired m ps now) = None
     \<and> accumulated (snd (settle_expired m ps now))
         = accumulated m @ map (\<lambda>p. the (map_of (recent_events (event_handler m)) p)) ps
     \<and> event_handler (snd (settle_expired m ps now))
         = (event_handler m)\<lparr>recent_events :=
              filter (\<lambda>(k, v). k \<notin> set ps) (recent_events (event_handler m))\<rparr>
     \<and> observer (snd (settle_expired m ps now)) = observer m
     \<and> \<not> shutdown_flag (executor (snd (settle_expired m ps now)))"
  using assms
proof (induction ps arbitrary: m)
  case Nil
  then show ?case by simp
next
  case (Cons p ps)
  let ?evs = "recent_events (event_handler m)"
  from Cons.prems obtain event where ev: "map_of ?evs p = Some event"
    by auto
  define m1 where "m1 = m\<lparr>event_handler := (event_handler m)
        \<lparr>recent_events := AList.delete p ?evs\<rparr>\<rparr>"
  define m2 where "m2 = snd (process_file_change m1 event now)"
  have open1: "\<not> shutdown_flag (executor m1)"
    using Cons.prems by (simp add: m1_def)
  note pfc = process_file_change_accumulated [OF open1, of event now, folded m2_def]
  have acc1: "accumulated m1 = accumulated m"
    by (simp add: m1_def accumulated_def)
  have res: "settle_expired m (p # ps) now = settle_expired m2 ps now"
    using ev pfc(1)
    by (cases "process_file_change m1 event now")
       (simp add: Let_def m1_def [symmetric] m2_def)
  have evs2: "recent_events (event_handler m2) = AList.delete p ?evs"
    using pfc(3) by (simp add: m1_def)
  have rest: "\<forall>q \<in> set ps. map_of (recent_events (event_handler m2)) q \<noteq> None"
    using Cons.prems by (auto simp: evs2 delete_conv')
  have same: "map (\<lambda>q. the (map_of (recent_events (event_handler m2)) q)) ps
      = map (\<lambda>q. the (map_of ?evs q)) ps"
    using Cons.prems by (auto simp: evs2 delete_conv')
  have filt: "filter (\<lambda>(k, v). k \<notin> set ps) (AList.delete p ?evs)
      = filter (\<lambda>(k, v). k \<notin> set (p # ps)) ?evs"
    by (auto simp: AList.delete_eq intro: filter_cong)
  from Cons.prems have "distinct ps" by simp
  from Cons.IH [OF pfc(5) this rest]
  show ?case
    unfolding res
    using pfc ev acc1 same filt evs2
    by (simp add: m1_def)
qed

lemma entry_of_key:
  "distinct (map fst xs) \<Longrightarrow> map_of xs p = Some r \<Longrightarrow> filter (\<lambda>(k, v). k = p) xs = [(p, r)]"
proof (induction xs)
  case Nil
  then show ?case by simp
next
  case (Cons x xs)
  obtain k v where x: "x = (k, v)" by (cases x)
  show ?case
  proof (cases "k = p")
    case True
    with Cons.prems x have "r = v" and "p \<notin> fst ` set xs" by auto
    then have "filter (\<lambda>(k, v). k = p) xs = []"
      by (force simp: filter_empty_conv)
    with True x \<open>r = v\<close> show ?thesis by simp
  next
    case False
    with Cons x show ?thesis by simp
  qed
qed

lemma no_entry_of_key:
  "map_of xs p = None \<Longrightarrow> filter (\<lambda>(k, v). k = p) xs = []"
  by (force simp: filter_empty_conv map_of_eq_None_iff)

lemma by_path_settled:
  assumes "\<forall>(k, v) \<in> set xs. file_path v = k"
  shows "filter (\<lambda>c. file_path c = p) (map snd (filter E xs))
     = map snd (filter E (filter (\<lambda>(k, v). k = p) xs))"
  using assms by (induction xs) auto

lemma cleanup_accumulated:
  fixes m :: FileMonitor and current_time :: int
  defines "evs \<equiv> recent_events (event_handler m)"
      and "E \<equiv> (\<lambda>(p, event). current_time - timestamp event
                    > debounce_interval (event_handler m) * 1000000)"
  assumes "\<not> shutdown_flag (executor m)" and "distinct (map fst evs)"
  shows "fst (cleanup_old_events m current_time) = None
     \<and> accumulated (snd (cleanup_old_events m current_time))
         = accumulated m @ map snd (filter E evs)
     \<and> event_handler (snd (cleanup_old_events m current_time))
         = (event_handler m)\<lparr>recent_events := filter (\<lambda>kv. \<not> E kv) evs\<rparr>
     \<and> observer (snd (cleanup_old_events m current_time)) = observer m
     \<and> \<not> shutdown_flag (executor (snd (cleanup_old_events m current_time)))"
proof -
  define ps where "ps = map fst (filter E evs)"
  have ps: "expired_files (event_handler m) current_time = ps"
    by (simp add: expired_files_def ps_def E_def evs_def)
  have d: "distinct ps"
    unfolding ps_def using assms(4) by (rule distinct_map_filter)
  have value_of: "map_of evs k = Some v" if "(k, v) \<in> set evs" for k v
    using that assms(4) by simp
  have dom: "\<forall>p \<in> set ps. map_of evs p \<noteq> None"
    by (auto simp: ps_def dest: value_of)
  have vals: "map (\<lambda>p. the (map_of evs p)) ps = map snd (filter E evs)"
    by (auto simp: ps_def dest: value_of)
  have in_ps: "k \<in> set ps \<longleftrightarrow> E (k, v)" if "(k, v) \<in> set evs" for k v
  proof
    assume "k \<in> set ps"
    then obtain v' where v': "(k, v') \<in> set evs" "E (k, v')"
      by (auto simp: ps_def)
    with that assms(4) have "v' = v"
      by (meson eq_key_imp_eq_value)
    with v' show "E (k, v)" by simp
  next
    assume "E (k, v)"
    with that show "k \<in> set ps" by (force simp: ps_def)
  qed
  have rest: "filter (\<lambda>(k, v). k \<notin> set ps) evs = filter (\<lambda>kv. \<not> E kv) evs"
    by (rule filter_cong) (auto simp: in_ps)
  from settle_expired_accumulated [OF assms(3) d, of current_time] dom
  show ?thesis
    by (simp add: cleanup_old_events_def ps vals rest evs_def [symmetric])
qed

lemma on_modified_suppressed:
  assumes "map_of (recent_events h) (normpath (src_path event)) = Some r"
      and "get_file_hash fs (normpath (src_path event)) = file_hash r"
  shows "on_modified h event now fs = h"
  using assms by (simp add: on_modified_def Let_def new_FileChangeEvent_def)

lemma quiet_step:
  fixes m :: FileMonitor and event :: FileSystemEvent and r :: FileChangeEvent
  defines "p \<equiv> normpath (src_path event)"
  assumes pend: "map_of (recent_events (event_handler m)) p = Some r"
      and d: "distinct (map fst (recent_events (event_handler m)))"
      and wf: "\<forall>(k, v) \<in> set (recent_events (event_handler m)). file_path v = k"
      and op: "\<not> shutdown_flag (executor m)"
      and q: "quiet event (file_hash r)
                (timestamp r + debounce_interval (event_handler m) * 1000000) a"
  shows "map_of (recent_events (event_handler (snd (step m a)))) p = Some r
     \<and> distinct (map fst (recent_events (event_handler (snd (step m a)))))
     \<and> (\<forall>(k, v) \<in> set (recent_events (event_handler (snd (step m a)))). file_path v = k)
     \<and> \<not> shutdown_flag (executor (snd (step m a)))
     \<and> debounce_interval (event_handler (snd (step m a))) = debounce_interval (event_handler m)
     \<and> config (event_handler (snd (step m a))) = config (event_handler m)
     \<and> observer (snd (step m a)) = observer m
     \<and> filter (\<lambda>c. file_path c = p) (accumulated (snd (step m a)))
         = filter (\<lambda>c. file_path c = p) (accumulated m)"
proof (cases a)
  case (Notify k e now fs)
  with q have k: "k = Modified" and e: "e = event" and h: "get_file_hash fs p = file_hash r"
    by (simp_all add: p_def)
  have "on_modified (event_handler m) event now fs = event_handler m"
    using pend h unfolding p_def by (rule on_modified_suppressed)
  then have "snd (step m a) = m"
    by (simp add: Notify k e dispatch_def)
  with pend d wf op show ?thesis by simp
next
  case (CleanupTick current_time)
  let ?evs = "recent_events (event_handler m)"
  let ?E = "\<lambda>(p, event). current_time - timestamp event
                    > debounce_interval (event_handler m) * 1000000"
  from q CleanupTick
  have early: "current_time \<le> timestamp r + debounce_interval (event_handler m) * 1000000"
    by simp
  then have notE: "\<not> ?E (p, r)" by simp
  note c = cleanup_accumulated [OF op d, of current_time]
  have evs': "recent_events (event_handler (snd (step m a))) = filter (\<lambda>kv. \<not> ?E kv) ?evs"
    using c by (simp add: CleanupTick)
  have one: "filter (\<lambda>(k, v). k = p) ?evs = [(p, r)]"
    using d pend by (rule entry_of_key)
  have "map_of (filter (\<lambda>(k, v). \<not> ?E (k, v)) ?evs) p = Some r"
    using pend notE by (intro map_of_filter_in) simp_all
  then have pend': "map_of (filter (\<lambda>kv. \<not> ?E kv) ?evs) p = Some r"
    by (simp add: case_prod_unfold)
  have d': "distinct (map fst (filter (\<lambda>kv. \<not> ?E kv) ?evs))"
    using d by (rule distinct_map_filter)
  have wf': "\<forall>(k, v) \<in> set (filter (\<lambda>kv. \<not> ?E kv) ?evs). file_path v = k"
    using wf by auto
  have "filter (\<lambda>c. file_path c = p) (map snd (filter ?E ?evs))
      = map snd (filter ?E (filter (\<lambda>(k, v). k = p) ?evs))"
    using wf by (rule by_path_settled)
  also have "\<dots> = []"
    unfolding one using notE by simp
  finally have none: "filter (\<lambda>c. file_path c = p) (map snd (filter ?E ?evs)) = []" .
  show ?thesis
    using c pend' d' wf' none
    by (simp add: CleanupTick)
qed (use q in simp_all)

lemma quiet_run:
  fixes m :: FileMonitor and event :: FileSystemEvent and r :: FileChangeEvent
  defines "p \<equiv> normpath (src_path event)"
  assumes pend: "map_of (recent_events (event_handler m)) p = Some r"
      and d: "distinct (map fst (recent_events (event_handler m)))"
      and wf: "\<forall>(k, v) \<in> set (recent_events (event_handler m)). file_path v = k"
      and op: "\<not> shutdown_flag (executor m)"
      and q: "\<forall>a \<in> set as. quiet event (file_hash r)
                (timestamp r + debounce_interval (event_handler m) * 1000000) a"
  shows "map_of (recent_events (event_handler (run m as))) p = Some r
     \<and> distinct (map fst (recent_events (event_handler (run m as))))
     \<and> (\<forall>(k, v) \<in> set (recent_events (event_handler (run m as))). file_path v = k)
     \<and> \<not> shutdown_flag (executor (run m as))
     \<and> debounce_interval (event_handler (run m as)) = debounce_interval (event_handler m)
     \<and> config (event_handler (run m as)) = config (event_handler m)
     \<and> observer (run m as) = observer m
     \<and> filter (\<lambda>c. file_path c = p) (accumulated (run m as))
         = filter (\<lambda>c. file_path c = p) (accumulated m)"
  using pend d wf op q
proof (induction as arbitrary: m)
  case Nil
  then show ?case by (simp add: run_def)
next
  case (Cons a as)
  from Cons.prems(5)
  have qa: "quiet event (file_hash r)
                (timestamp r + debounce_interval (event_handler m) * 1000000) a"
    by simp
  note s = quiet_step [OF Cons.prems(1-4) [unfolded p_def] qa, folded p_def]
  have q': "\<forall>b \<in> set as. quiet event (file_hash r)
      (timestamp r + debounce_interval (event_handler (snd (step m a))) * 1000000) b"
    using Cons.prems(5) s by simp
  have "map_of (recent_events (event_handler (snd (step m a)))) p = Some r"
    and "distinct (map fst (recent_events (event_handler (snd (step m a)))))"
    and "\<forall>(k, v) \<in> set (recent_events (event_handler (snd (step m a)))). file_path v = k"
    and "\<not> shutdown_flag (executor (snd (step m a)))"
    using s by blast+
  from Cons.IH [OF this q'] s
  show ?case by (simp add: run_def)
qed

lemma settling_round:
  fixes m :: FileMonitor and r :: FileChangeEvent
  assumes pend: "map_of (recent_events (event_handler m)) p = Some r"
      and d: "distinct (map fst (recent_events (event_handler m)))"
      and wf: "\<forall>(k, v) \<in> set (recent_events (event_handler m)). file_path v = k"
      and op: "\<not> shutdown_flag (executor m)"
      and late: "current_time - timestamp r > debounce_interval (event_handler m) * 1000000"
  shows "fst (cleanup_old_events m current_time) = None
     \<and> filter (\<lambda>c. file_path c = p) (accumulated (snd (cleanup_old_events m current_time)))
         = filter (\<lambda>c. file_path c = p) (accumulated m) @ [r]
     \<and> map_of (recent_events (event_handler (snd (cleanup_old_events m current_time)))) p = None"
proof -
  let ?evs = "recent_events (event_handler m)"
  let ?E = "\<lambda>(p, event). current_time - timestamp event
                    > debounce_interval (event_handler m) * 1000000"
  note c = cleanup_accumulated [OF op d, of current_time]
  have one: "filter (\<lambda>(k, v). k = p) ?evs = [(p, r)]"
    using d pend by (rule entry_of_key)
  have "filter (\<lambda>c. file_path c = p) (map snd (filter ?E ?evs))
      = map snd (filter ?E (filter (\<lambda>(k, v). k = p) ?evs))"
    using wf by (rule by_path_settled)
  also have "\<dots> = [r]"
    unfolding one using late by simp
  finally have settled: "filter (\<lambda>c. file_path c = p) (map snd (filter ?E ?evs)) = [r]" .
  have gone: "map_of (filter (\<lambda>kv. \<not> ?E kv) ?evs) p = None"
  proof (rule ccontr)
    assume "map_of (filter (\<lambda>kv. \<not> ?E kv) ?evs) p \<noteq> None"
    then obtain v where "(p, v) \<in> set (filter (\<lambda>kv. \<not> ?E kv) ?evs)"
      by (auto dest: map_of_SomeD)
    then have "(p, v) \<in> set ?evs" and "\<not> ?E (p, v)" by simp_all
    moreover from pend have "(p, r) \<in> set ?evs" by (rule map_of_SomeD)
    ultimately have "v = r" using d by (meson eq_key_imp_eq_value)
    with \<open>\<not> ?E (p, v)\<close> late show False by simp
  qed
  from c settled gone show ?thesis by simp
qed

lemma run_Nil: "run m [] = m"
  by (simp add: run_def)

lemma run_Cons: "run m (a # as) = run (snd (step m a)) as"
  by (simp add: run_def)

lemma run_append: "run m (as @ bs) = run (run m as) bs"
  by (simp add: run_def)

lemma run_single: "run m [a] = snd (step m a)"
  by (simp add: run_def)

lemma update_well_formed:
  assumes "distinct (map fst evs)" and "\<forall>(k, v) \<in> set evs. file_path v = k"
  shows "distinct (map fst (AList.update p (new_FileChangeEvent fs now p kind) evs))
     \<and> (\<forall>(k, v) \<in> set (AList.update p (new_FileChangeEvent fs now p kind) evs). file_path v = k)
     \<and> map_of (AList.update p (new_FileChangeEvent fs now p kind) evs) p
         = Some (new_FileChangeEvent fs now p kind)"
proof -
  have "file_path v = k"
    if "(k, v) \<in> set (AList.update p (new_FileChangeEvent fs now p kind) evs)" for k v
  proof -
    from that have "(k, v) = (p, new_FileChangeEvent fs now p kind) \<or> (k, v) \<in> set evs"
      by (induction evs) (auto split: if_splits)
    with assms(2) show ?thesis
      by (auto simp: new_FileChangeEvent_def)
  qed
  with assms(1) show ?thesis
    by (auto simp: distinct_update update_conv')
qed

lemma stored_by_handle:
  assumes "\<not> is_directory event"
      and "\<not> should_ignore_file (config h) (src_path event)"
      and "kind = Created \<or> kind = Deleted
           \<or> (kind = Modified \<and> map_of (recent_events h) (normpath (src_path event)) = None)"
  shows "handle kind h event now fs
     = h\<lparr>recent_events :=
           AList.update (normpath (src_path event))
             (new_FileChangeEvent fs now (normpath (src_path event)) kind) (recent_events h)\<rparr>"
  using assms
  by (auto simp: on_created_def on_deleted_def on_modified_def Let_def)

lemma storing_step:
  fixes m :: FileMonitor and event :: FileSystemEvent
  defines "p \<equiv> normpath (src_path event)"
  assumes alive: "is_alive (observer m)"
      and "\<not> is_directory event"
      and "\<not> should_ignore_file (config (event_handler m)) (src_path event)"
      and "kind = Created \<or> kind = Deleted
           \<or> (kind = Modified \<and> map_of (recent_events (event_handler m)) p = None)"
      and d: "distinct (map fst (recent_events (event_handler m)))"
      and wf: "\<forall>(k, v) \<in> set (recent_events (event_handler m)). file_path v = k"
  shows "map_of (recent_events (event_handler (snd (step m (Notify kind event now fs))))) p
           = Some (new_FileChangeEvent fs now p kind)
     \<and> distinct (map fst (recent_events (event_handler (snd (step m (Notify kind event now fs))))))
     \<and> (\<forall>(k, v) \<in> set (recent_events (event_handler (snd (step m (Notify kind event now fs))))).
            file_path v = k)
     \<and> shutdown_flag (executor (snd (step m (Notify kind event now fs))))
         = shutdown_flag (executor m)
     \<and> debounce_interval (event_handler (snd (step m (Notify kind event now fs))))
         = debounce_interval (event_handler m)
     \<and> config (event_handler (snd (step m (Notify kind event now fs))))
         = config (event_handler m)
     \<and> observer (snd (step m (Notify kind event now fs))) = observer m
     \<and> accumulated (snd (step m (Notify kind event now fs))) = accumulated m"
proof -
  note h = stored_by_handle [OF assms(3,4) assms(5) [unfolded p_def], of now fs, folded p_def]
  note u = update_well_formed [OF d wf, of p fs now kind]
  show ?thesis
    using alive u by (simp add: dispatch_def h accumulated_def)
qed

lemma timestamp_new [simp]: "timestamp (new_FileChangeEvent fs now p kind) = now"
  and file_hash_new [simp]: "file_hash (new_FileChangeEvent fs now p kind) = get_file_hash fs p"
  and event_type_new [simp]: "event_type (new_FileChangeEvent fs now p kind) = kind"
  by (simp_all add: new_FileChangeEvent_def)


lemma example_started_facts:
  "is_alive (observer example_started)"
  "\<not> shutdown_flag (executor example_started)"
  "recent_events (event_handler example_started) = []"
  "config (event_handler example_started) = get_default_config"
  "debounce_interval (event_handler example_started) = 2"
  "accumulated example_started = []"
  unfolding example_started_def accumulated_def by code_simp+

lemma example_event_a_facts:
  "\<not> is_directory example_event_a"
  "normpath (src_path example_event_a) = ''/repo/a.py''"
  "\<not> should_ignore_file get_default_config (src_path example_event_a)"
  unfolding example_event_a_def by code_simp+


text \<open>
  Claim C1, as stated, fails: two Modified notifications for \<^verbatim>\<open>/repo/a.py\<close> with the same
  content hash, half a second apart, settle one record (the first notification's), not none.
\<close>

theorem identical_modifications_settle_one_record:
  "pending_changes
     (run (new_FileMonitor None ''/repo'' 0)
        [Start,
         Notify Modified example_event_a 1000000 example_fs,
         Notify Modified example_event_a 1500000 example_fs,
         CleanupTick 4000000])
     = [\<lparr> file_path = ''/repo/a.py'', event_type = Modified, timestamp = 1000000,
          file_size = 2, file_hash = ''h1'' \<rparr>]
   \<and> get_file_hash example_fs ''/repo/a.py'' = ''h1''"
  by code_simp


text \<open>
  Claim C1, amended. Let no record be pending for a path that is a file and is not ignored,
  on a running monitor whose executor accepts tasks. After a Modified notification for the
  path at \<open>t1\<close>, followed by any number of Modified notifications for it that read the same
  content hash and of cleanup rounds no later than the debounce interval after \<open>t1\<close>, the
  record of the first notification is the one pending and nothing was settled for the path:
  every later notification was suppressed. The next cleanup round later than the debounce
  interval after \<open>t1\<close> settles exactly that one record for the path.
\<close>

theorem repeated_modification_settles_once:
  fixes m :: FileMonitor and event :: FileSystemEvent
  defines "p \<equiv> normpath (src_path event)"
  assumes alive: "is_alive (observer m)"
      and op: "\<not> shutdown_flag (executor m)"
      and d: "distinct (map fst (recent_events (event_handler m)))"
      and wf: "\<forall>(k, v) \<in> set (recent_events (event_handler m)). file_path v = k"
      and regular: "\<not> is_directory event"
      and keep: "\<not> should_ignore_file (config (event_handler m)) (src_path event)"
      and fresh: "map_of (recent_events (event_handler m)) p = None"
      and rest: "\<forall>a \<in> set as. quiet event (get_file_hash fs1 p)
                   (t1 + debounce_interval (event_handler m) * 1000000) a"
      and late: "T - t1 > debounce_interval (event_handler m) * 1000000"
  shows "map_of (recent_events (event_handler (run m (Notify Modified event t1 fs1 # as)))) p
           = Some (new_FileChangeEvent fs1 t1 p Modified)
     \<and> filter (\<lambda>c. file_path c = p) (accumulated (run m (Notify Modified event t1 fs1 # as)))
         = filter (\<lambda>c. file_path c = p) (accumulated m)
     \<and> filter (\<lambda>c. file_path c = p)
          (accumulated (run m (Notify Modified event t1 fs1 # as @ [CleanupTick T])))
         = filter (\<lambda>c. file_path c = p) (accumulated m) @ [new_FileChangeEvent fs1 t1 p Modified]
     \<and> map_of (recent_events
          (event_handler (run m (Notify Modified event t1 fs1 # as @ [CleanupTick T])))) p = None"
proof -
  define r where "r = new_FileChangeEvent fs1 t1 p Modified"
  define m1 where "m1 = snd (step m (Notify Modified event t1 fs1))"
  define m2 where "m2 = run m1 as"
  have kind: "Modified = Created \<or> Modified = Deleted
      \<or> (Modified = Modified \<and> map_of (recent_events (event_handler m)) p = None)"
    using fresh by simp
  note s1 = storing_step [OF alive regular keep kind [unfolded p_def] d wf, of t1 fs1,
      folded p_def m1_def r_def]
  have q1: "\<forall>a \<in> set as. quiet event (file_hash r)
      (timestamp r + debounce_interval (event_handler m1) * 1000000) a"
    using rest s1 by (simp add: r_def)
  have pend1: "map_of (recent_events (event_handler m1)) p = Some r"
    and d1: "distinct (map fst (recent_events (event_handler m1)))"
    and wf1: "\<forall>(k, v) \<in> set (recent_events (event_handler m1)). file_path v = k"
    and op1: "\<not> shutdown_flag (executor m1)"
    using s1 op by (simp_all add: r_def)
  note s2 = quiet_run [OF pend1 [unfolded p_def] d1 wf1 op1 q1, folded p_def m2_def]
  have late2: "T - timestamp r > debounce_interval (event_handler m2) * 1000000"
    using late s1 s2 by (simp add: r_def)
  have pend2: "map_of (recent_events (event_handler m2)) p = Some r"
    and d2: "distinct (map fst (recent_events (event_handler m2)))"
    and wf2: "\<forall>(k, v) \<in> set (recent_events (event_handler m2)). file_path v = k"
    and op2: "\<not> shutdown_flag (executor m2)"
    using s2 by blast+
  note s3 = settling_round [OF pend2 d2 wf2 op2 late2]
  have run1: "run m (Notify Modified event t1 fs1 # as) = m2"
    by (simp add: run_Cons m1_def m2_def)
  have run2: "run m (Notify Modified event t1 fs1 # as @ [CleanupTick T])
      = snd (cleanup_old_events m2 T)"
    by (simp add: run_Nil run_Cons run_append m1_def m2_def)
  show ?thesis
    unfolding run1 run2 r_def [symmetric]
    using s1 s2 s3 by simp
qed


theorem repeated_modification_settles_once_witness:
  "is_alive (observer example_started)
   \<and> map_of (recent_events (event_handler example_started)) ''/repo/a.py'' = None
   \<and> quiet example_event_a ''h1'' 3000000 (Notify Modified example_event_a 1500000 example_fs)
   \<and> quiet example_event_a ''h1'' 3000000 (CleanupTick 2000000)
   \<and> filter (\<lambda>c. file_path c = ''/repo/a.py'')
        (accumulated (run example_started
           (Notify Modified example_event_a 1000000 example_fs
            # [Notify Modified example_event_a 1500000 example_fs, CleanupTick 2000000,
               Notify Modified example_event_a 2500000 example_fs]
            @ [CleanupTick 4000000])))
       = [\<lparr> file_path = ''/repo/a.py'', event_type = Modified, timestamp = 1000000,
            file_size = 2, file_hash = ''h1'' \<rparr>]"
proof -
  let ?as = "[Notify Modified example_event_a 1500000 example_fs, CleanupTick 2000000,
               Notify Modified example_event_a 2500000 example_fs]"
  note m = example_started_facts and e = example_event_a_facts
  have h: "get_file_hash example_fs ''/repo/a.py'' = ''h1''"
    by (simp add: get_file_hash_def example_fs_def)
  have r: "new_FileChangeEvent example_fs 1000000 ''/repo/a.py'' Modified
      = \<lparr> file_path = ''/repo/a.py'', event_type = Modified, timestamp = 1000000,
            file_size = 2, file_hash = ''h1'' \<rparr>"
    by (simp add: new_FileChangeEvent_def get_file_size_def get_file_hash_def example_fs_def)
  have d: "distinct (map fst (recent_events (event_handler example_started)))"
    and wf: "\<forall>(k, v) \<in> set (recent_events (event_handler example_started)). file_path v = k"
    and fresh: "map_of (recent_events (event_handler example_started))
                  (normpath (src_path example_event_a)) = None"
    by (simp_all add: m)
  have keep: "\<not> should_ignore_file (config (event_handler example_started))
                  (src_path example_event_a)"
    by (simp add: m e)
  have rest: "\<forall>a \<in> set ?as. quiet example_event_a
      (get_file_hash example_fs (normpath (src_path example_event_a)))
      (1000000 + debounce_interval (event_handler example_started) * 1000000) a"
    by (simp add: m e h)
  have late: "4000000 - 1000000 > debounce_interval (event_handler example_started) * 1000000"
    by (simp add: m)
  note main = repeated_modification_settles_once
      [OF m(1) m(2) d wf e(1) keep fresh rest late]
  from main have "filter (\<lambda>c. file_path c = ''/repo/a.py'')
        (accumulated (run example_started
           (Notify Modified example_event_a 1000000 example_fs # ?as @ [CleanupTick 4000000])))
       = [\<lparr> file_path = ''/repo/a.py'', event_type = Modified, timestamp = 1000000,
            file_size = 2, file_hash = ''h1'' \<rparr>]"
    by (simp add: m e r)
  then show ?thesis
    using m(1) fresh by (simp add: e h)
qed


lemma handle_last_writer:
  "map_of (recent_events (handle kind h event now fs)) q = map_of (recent_events h) q
   \<or> map_of (recent_events (handle kind h event now fs)) q
       = Some (new_FileChangeEvent fs now q kind)"
  by (cases kind)
     (auto simp: on_created_def on_modified_def on_deleted_def on_moved_def Let_def update_conv'
           split: option.splits)


lemma accepted_is_stored:
  assumes "accepted (config h) kind event p"
      and "kind = Modified \<longrightarrow>
             (case map_of (recent_events h) p of
                None \<Rightarrow> True
              | Some previous \<Rightarrow> get_file_hash fs p \<noteq> file_hash previous)"
  shows "handle kind h event now fs
     = h\<lparr>recent_events :=
           AList.update p (new_FileChangeEvent fs now p kind) (recent_events h)\<rparr>"
  using assms
  by (cases kind)
     (auto simp: accepted_def on_created_def on_deleted_def on_modified_def on_moved_def Let_def
           split: option.splits)

lemma accepted_step:
  fixes m :: FileMonitor
  assumes alive: "is_alive (observer m)"
      and "accepted (config (event_handler m)) kind event p"
      and "kind = Modified \<longrightarrow>
             (case map_of (recent_events (event_handler m)) p of
                None \<Rightarrow> True
              | Some previous \<Rightarrow> get_file_hash fs p \<noteq> file_hash previous)"
      and d: "distinct (map fst (recent_events (event_handler m)))"
      and wf: "\<forall>(k, v) \<in> set (recent_events (event_handler m)). file_path v = k"
  shows "map_of (recent_events (event_handler (snd (step m (Notify kind event now fs))))) p
           = Some (new_FileChangeEvent fs now p kind)
     \<and> distinct (map fst (recent_events (event_handler (snd (step m (Notify kind event now fs))))))
     \<and> (\<forall>(k, v) \<in> set (recent_events (event_handler (snd (step m (Notify kind event now fs))))).
            file_path v = k)
     \<and> shutdown_flag (executor (snd (step m (Notify kind event now fs))))
         = shutdown_flag (executor m)
     \<and> debounce_interval (event_handler (snd (step m (Notify kind event now fs))))
         = debounce_interval (event_handler m)
     \<and> config (event_handler (snd (step m (Notify kind event now fs))))
         = config (event_handler m)
     \<and> observer (snd (step m (Notify kind event now fs))) = observer m
     \<and> accumulated (snd (step m (Notify kind event now fs))) = accumulated m"
proof -
  note h = accepted_is_stored [OF assms(2,3), of now]
  note u = update_well_formed [OF d wf, of p fs now kind]
  show ?thesis
    using alive u by (simp add: dispatch_def h accumulated_def)
qed

lemma suppressed_modification:
  assumes "map_of (recent_events h) (normpath (src_path event)) = Some previous"
      and "get_file_hash fs (normpath (src_path event)) = file_hash previous"
  shows "handle Modified h event now fs = h"
  using assms by (simp add: on_modified_suppressed)

text \<open>
  Claim C3. A notification is not suppressed when it passes the guards of its handler method
  (\<open>accepted\<close>) and, if it is a Modified one, reads a content hash other than that of the
  record pending for the path. Every such notification makes its own record the pending one
  for the path; a Created, Deleted or Moved one does so always, whatever was pending and
  whatever the hashes. A Modified notification that reads the hash of the pending record
  changes nothing, and any notification either leaves the pending record of a path alone or
  replaces it by its own record, of its own kind. When a path receives a notification that
  is not suppressed at \<open>t1\<close> and another one, of any kind, at \<open>t2\<close>, with nothing in between
  and after but suppressed Modified notifications and cleanup rounds within the debounce
  interval of the record then pending, the record of the second notification is the one
  pending, and the first cleanup round later than the debounce interval after \<open>t2\<close> settles
  that single record for the path, with the kind of the second notification. The witness is
  a path observed Created then Deleted, and a path observed Created then Modified with
  changed content.
\<close>

theorem last_kind_wins:
  fixes m :: FileMonitor and event :: FileSystemEvent
  defines "p \<equiv> normpath (src_path event)"
  assumes alive: "is_alive (observer m)"
      and op: "\<not> shutdown_flag (executor m)"
      and d: "distinct (map fst (recent_events (event_handler m)))"
      and wf: "\<forall>(k, v) \<in> set (recent_events (event_handler m)). file_path v = k"
      and acc1: "accepted (config (event_handler m)) kind1 event1 p"
      and new1: "kind1 = Modified \<longrightarrow>
                   (case map_of (recent_events (event_handler m)) p of
                      None \<Rightarrow> True
                    | Some previous \<Rightarrow> get_file_hash fs1 p \<noteq> file_hash previous)"
      and acc2: "accepted (config (event_handler m)) kind2 event2 p"
      and new2: "kind2 = Modified \<longrightarrow> get_file_hash fs2 p \<noteq> get_file_hash fs1 p"
      and first: "\<forall>a \<in> set as1. quiet event (get_file_hash fs1 p)
                   (t1 + debounce_interval (event_handler m) * 1000000) a"
      and second: "\<forall>a \<in> set as2. quiet event (get_file_hash fs2 p)
                   (t2 + debounce_interval (event_handler m) * 1000000) a"
      and late: "T - t2 > debounce_interval (event_handler m) * 1000000"
  shows "filter (\<lambda>c. file_path c = p)
          (accumulated (run m (Notify kind1 event1 t1 fs1 # as1
                                @ Notify kind2 event2 t2 fs2 # as2 @ [CleanupTick T])))
         = filter (\<lambda>c. file_path c = p) (accumulated m) @ [new_FileChangeEvent fs2 t2 p kind2]
     \<and> event_type (new_FileChangeEvent fs2 t2 p kind2) = kind2
     \<and> map_of (recent_events (event_handler
          (run m (Notify kind1 event1 t1 fs1 # as1 @ Notify kind2 event2 t2 fs2 # as2)))) p
         = Some (new_FileChangeEvent fs2 t2 p kind2)
     \<and> (\<forall>h kind e now fs q.
           accepted (config h) kind e q
           \<and> (kind = Modified \<longrightarrow>
                 (case map_of (recent_events h) q of
                    None \<Rightarrow> True
                  | Some previous \<Rightarrow> get_file_hash fs q \<noteq> file_hash previous)) \<longrightarrow>
           map_of (recent_events (handle kind h e now fs)) q
             = Some (new_FileChangeEvent fs now q kind))
     \<and> (\<forall>h e now fs previous.
           map_of (recent_events h) (normpath (src_path e)) = Some previous
           \<and> get_file_hash fs (normpath (src_path e)) = file_hash previous \<longrightarrow>
           handle Modified h e now fs = h)
     \<and> (\<forall>kind h e now fs q.
           map_of (recent_events (handle kind h e now fs)) q = map_of (recent_events h) q
           \<or> map_of (recent_events (handle kind h e now fs)) q
               = Some (new_FileChangeEvent fs now q kind))"
proof -
  define r1 where "r1 = new_FileChangeEvent fs1 t1 p kind1"
  define r2 where "r2 = new_FileChangeEvent fs2 t2 p kind2"
  define m1 where "m1 = snd (step m (Notify kind1 event1 t1 fs1))"
  define m2 where "m2 = run m1 as1"
  define m3 where "m3 = snd (step m2 (Notify kind2 event2 t2 fs2))"
  define m4 where "m4 = run m3 as2"
  note s1 = accepted_step [OF alive acc1 new1 d wf, of t1, folded m1_def]
  have q1: "\<forall>a \<in> set as1. quiet event (file_hash r1)
      (timestamp r1 + debounce_interval (event_handler m1) * 1000000) a"
    using first s1 by (simp add: r1_def)
  have pend1: "map_of (recent_events (event_handler m1)) p = Some r1"
    and d1: "distinct (map fst (recent_events (event_handler m1)))"
    and wf1: "\<forall>(k, v) \<in> set (recent_events (event_handler m1)). file_path v = k"
    and op1: "\<not> shutdown_flag (executor m1)"
    using s1 op by (simp_all add: r1_def)
  note s2 = quiet_run [OF pend1 [unfolded p_def] d1 wf1 op1 q1, folded p_def m2_def]
  have alive2: "is_alive (observer m2)"
    and acc2': "accepted (config (event_handler m2)) kind2 event2 p"
    and d2: "distinct (map fst (recent_events (event_handler m2)))"
    and wf2: "\<forall>(k, v) \<in> set (recent_events (event_handler m2)). file_path v = k"
    and op2: "\<not> shutdown_flag (executor m2)"
    using s1 s2 alive acc2 by simp_all
  have pend2: "map_of (recent_events (event_handler m2)) p = Some r1"
    using s2 by blast
  have new2': "kind2 = Modified \<longrightarrow>
      (case map_of (recent_events (event_handler m2)) p of
         None \<Rightarrow> True
       | Some previous \<Rightarrow> get_file_hash fs2 p \<noteq> file_hash previous)"
    using new2 by (simp add: pend2 r1_def)
  note s3 = accepted_step [OF alive2 acc2' new2' d2 wf2, of t2, folded m3_def]
  have q3: "\<forall>a \<in> set as2. quiet event (file_hash r2)
      (timestamp r2 + debounce_interval (event_handler m3) * 1000000) a"
    using second s1 s2 s3 by (simp add: r2_def)
  have pend3: "map_of (recent_events (event_handler m3)) p = Some r2"
    and d3: "distinct (map fst (recent_events (event_handler m3)))"
    and wf3: "\<forall>(k, v) \<in> set (recent_events (event_handler m3)). file_path v = k"
    and op3: "\<not> shutdown_flag (executor m3)"
    using s3 op2 by (simp_all add: r2_def)
  note s4 = quiet_run [OF pend3 [unfolded p_def] d3 wf3 op3 q3, folded p_def m4_def]
  have late4: "T - timestamp r2 > debounce_interval (event_handler m4) * 1000000"
    using late s1 s2 s3 s4 by (simp add: r2_def)
  have pend4: "map_of (recent_events (event_handler m4)) p = Some r2"
    and d4: "distinct (map fst (recent_events (event_handler m4)))"
    and wf4: "\<forall>(k, v) \<in> set (recent_events (event_handler m4)). file_path v = k"
    and op4: "\<not> shutdown_flag (executor m4)"
    using s4 by blast+
  note s5 = settling_round [OF pend4 d4 wf4 op4 late4]
  have before: "run m (Notify kind1 event1 t1 fs1 # as1 @ Notify kind2 event2 t2 fs2 # as2) = m4"
    by (simp add: run_Nil run_Cons run_append m1_def m2_def m3_def m4_def)
  have whole: "run m (Notify kind1 event1 t1 fs1 # as1
                                @ Notify kind2 event2 t2 fs2 # as2 @ [CleanupTick T])
      = snd (cleanup_old_events m4 T)"
    by (simp add: run_Nil run_Cons run_append m1_def m2_def m3_def m4_def)
  have settled: "filter (\<lambda>c. file_path c = p)
          (accumulated (run m (Notify kind1 event1 t1 fs1 # as1
                                @ Notify kind2 event2 t2 fs2 # as2 @ [CleanupTick T])))
         = filter (\<lambda>c. file_path c = p) (accumulated m) @ [r2]"
    unfolding whole using s1 s2 s3 s4 s5 by simp
  have kind_r2: "event_type r2 = kind2"
    by (simp add: r2_def)
  have pending: "map_of (recent_events (event_handler
          (run m (Notify kind1 event1 t1 fs1 # as1 @ Notify kind2 event2 t2 fs2 # as2)))) p
         = Some r2"
    unfolding before by (rule pend4)
  have stored: "\<forall>h kind e now fs q.
           accepted (config h) kind e q
           \<and> (kind = Modified \<longrightarrow>
                 (case map_of (recent_events h) q of
                    None \<Rightarrow> True
                  | Some previous \<Rightarrow> get_file_hash fs q \<noteq> file_hash previous)) \<longrightarrow>
           map_of (recent_events (handle kind h e now fs)) q
             = Some (new_FileChangeEvent fs now q kind)"
  proof (intro allI impI)
    fix h :: IntelligentFileHandler and kind e now fs q
    assume a: "accepted (config h) kind e q
           \<and> (kind = Modified \<longrightarrow>
                 (case map_of (recent_events h) q of
                    None \<Rightarrow> True
                  | Some previous \<Rightarrow> get_file_hash fs q \<noteq> file_hash previous))"
    then have a1: "accepted (config h) kind e q"
      and a2: "kind = Modified \<longrightarrow>
                 (case map_of (recent_events h) q of
                    None \<Rightarrow> True
                  | Some previous \<Rightarrow> get_file_hash fs q \<noteq> file_hash previous)"
      by blast+
    show "map_of (recent_events (handle kind h e now fs)) q
             = Some (new_FileChangeEvent fs now q kind)"
      unfolding accepted_is_stored [OF a1 a2] by (simp add: update_conv')
  qed
  have dropped: "\<forall>h e now fs previous.
           map_of (recent_events h) (normpath (src_path e)) = Some previous
           \<and> get_file_hash fs (normpath (src_path e)) = file_hash previous \<longrightarrow>
           handle Modified h e now fs = h"
    using suppressed_modification by blast
  have writer: "\<forall>kind h e now fs q.
           map_of (recent_events (handle kind h e now fs)) q = map_of (recent_events h) q
           \<or> map_of (recent_events (handle kind h e now fs)) q
               = Some (new_FileChangeEvent fs now q kind)"
    using handle_last_writer by blast
  from settled kind_r2 pending stored dropped writer show ?thesis
    unfolding r2_def by - (intro conjI; assumption)
qed

theorem last_kind_wins_witness:
  "is_alive (observer example_started)
   \<and> accepted get_default_config Created example_event_a ''/repo/a.py''
   \<and> accepted get_default_config Deleted example_event_a ''/repo/a.py''
   \<and> accepted get_default_config Modified example_event_a ''/repo/a.py''
   \<and> quiet example_event_a ''h1'' 3000000 (CleanupTick 2000000)
   \<and> filter (\<lambda>c. file_path c = ''/repo/a.py'')
        (accumulated (run example_started
           (Notify Created example_event_a 1000000 example_fs # [CleanupTick 2000000]
            @ Notify Deleted example_event_a 2500000 example_fs_after_delete # []
            @ [CleanupTick 5000000])))
       = [\<lparr> file_path = ''/repo/a.py'', event_type = Deleted, timestamp = 2500000,
            file_size = 0, file_hash = [] \<rparr>]
   \<and> get_file_hash example_fs_changed ''/repo/a.py'' \<noteq> get_file_hash example_fs ''/repo/a.py''
   \<and> quiet example_event_a ''h9'' 3500000 (Notify Modified example_event_a 1800000 example_fs_changed)
   \<and> filter (\<lambda>c. file_path c = ''/repo/a.py'')
        (accumulated (run example_started
           (Notify Created example_event_a 1000000 example_fs # []
            @ Notify Modified example_event_a 1500000 example_fs_changed
              # [Notify Modified example_event_a 1800000 example_fs_changed]
            @ [CleanupTick 4000000])))
       = [\<lparr> file_path = ''/repo/a.py'', event_type = Modified, timestamp = 1500000,
            file_size = 5, file_hash = ''h9'' \<rparr>]"
proof -
  note m = example_started_facts and e = example_event_a_facts
  have h: "get_file_hash example_fs ''/repo/a.py'' = ''h1''"
    "get_file_hash example_fs_changed ''/repo/a.py'' = ''h9''"
    "get_file_hash example_fs_after_delete ''/repo/a.py'' = []"
    by (simp_all add: get_file_hash_def example_fs_def example_fs_changed_def
          example_fs_after_delete_def)
  have r: "new_FileChangeEvent example_fs_after_delete 2500000 ''/repo/a.py'' Deleted
      = \<lparr> file_path = ''/repo/a.py'', event_type = Deleted, timestamp = 2500000,
            file_size = 0, file_hash = [] \<rparr>"
    "new_FileChangeEvent example_fs_changed 1500000 ''/repo/a.py'' Modified
      = \<lparr> file_path = ''/repo/a.py'', event_type = Modified, timestamp = 1500000,
            file_size = 5, file_hash = ''h9'' \<rparr>"
    by (simp_all add: new_FileChangeEvent_def get_file_size_def get_file_hash_def
          example_fs_after_delete_def example_fs_changed_def)
  have d: "distinct (map fst (recent_events (event_handler example_started)))"
    and wf: "\<forall>(k, v) \<in> set (recent_events (event_handler example_started)). file_path v = k"
    by (simp_all add: m)
  have acc: "accepted (config (event_handler example_started)) kind example_event_a
      (normpath (src_path example_event_a))"
    if "kind \<noteq> Moved" for kind
    using that e by (cases kind) (simp_all add: accepted_def m)
  have new_created: "Created = Modified \<longrightarrow>
      (case map_of (recent_events (event_handler example_started))
              (normpath (src_path example_event_a)) of
         None \<Rightarrow> True
       | Some previous \<Rightarrow>
           get_file_hash example_fs (normpath (src_path example_event_a)) \<noteq> file_hash previous)"
    by simp
  have new_deleted: "Deleted = Modified \<longrightarrow>
      get_file_hash example_fs_after_delete (normpath (src_path example_event_a))
        \<noteq> get_file_hash example_fs (normpath (src_path example_event_a))"
    by simp
  have new_modified: "Modified = Modified \<longrightarrow>
      get_file_hash example_fs_changed (normpath (src_path example_event_a))
        \<noteq> get_file_hash example_fs (normpath (src_path example_event_a))"
    by (simp add: e h)
  have first: "\<forall>a \<in> set [CleanupTick 2000000]. quiet example_event_a
      (get_file_hash example_fs (normpath (src_path example_event_a)))
      (1000000 + debounce_interval (event_handler example_started) * 1000000) a"
    by (simp add: m)
  have no_action: "\<forall>a \<in> set []. quiet example_event_a
      (get_file_hash example_fs_after_delete (normpath (src_path example_event_a)))
      (2500000 + debounce_interval (event_handler example_started) * 1000000) a"
    "\<forall>a \<in> set []. quiet example_event_a
      (get_file_hash example_fs (normpath (src_path example_event_a)))
      (1000000 + debounce_interval (event_handler example_started) * 1000000) a"
    by simp_all
  have repeat: "\<forall>a \<in> set [Notify Modified example_event_a 1800000 example_fs_changed].
      quiet example_event_a
      (get_file_hash example_fs_changed (normpath (src_path example_event_a)))
      (1500000 + debounce_interval (event_handler example_started) * 1000000) a"
    by (simp add: m e h)
  have late: "5000000 - 2500000 > debounce_interval (event_handler example_started) * 1000000"
    "4000000 - 1500000 > debounce_interval (event_handler example_started) * 1000000"
    by (simp_all add: m)
  have c: "Created \<noteq> Moved" "Deleted \<noteq> Moved" "Modified \<noteq> Moved"
    by simp_all
  note deleted = last_kind_wins [where m = example_started and event = example_event_a
      and ?event1.0 = example_event_a and ?event2.0 = example_event_a
      and ?kind1.0 = Created and ?kind2.0 = Deleted
      and ?fs1.0 = example_fs and ?fs2.0 = example_fs_after_delete
      and ?t1.0 = 1000000 and ?t2.0 = 2500000 and T = 5000000
      and ?as1.0 = "[CleanupTick 2000000]" and ?as2.0 = "[]",
      OF m(1) m(2) d wf acc [OF c(1)] new_created acc [OF c(2)]
      new_deleted first no_action(1) late(1)]
  note modified = last_kind_wins [where m = example_started and event = example_event_a
      and ?event1.0 = example_event_a and ?event2.0 = example_event_a
      and ?kind1.0 = Created and ?kind2.0 = Modified
      and ?fs1.0 = example_fs and ?fs2.0 = example_fs_changed
      and ?t1.0 = 1000000 and ?t2.0 = 1500000 and T = 4000000
      and ?as1.0 = "[]"
      and ?as2.0 = "[Notify Modified example_event_a 1800000 example_fs_changed]",
      OF m(1) m(2) d wf acc [OF c(1)] new_created acc [OF c(3)]
      new_modified no_action(2) repeat late(2)]
  from deleted have one: "filter (\<lambda>c. file_path c = ''/repo/a.py'')
        (accumulated (run example_started
           (Notify Created example_event_a 1000000 example_fs # [CleanupTick 2000000]
            @ Notify Deleted example_event_a 2500000 example_fs_after_delete # []
            @ [CleanupTick 5000000])))
       = [\<lparr> file_path = ''/repo/a.py'', event_type = Deleted, timestamp = 2500000,
            file_size = 0, file_hash = [] \<rparr>]"
    by (simp add: m e r)
  from modified have two: "filter (\<lambda>c. file_path c = ''/repo/a.py'')
        (accumulated (run example_started
           (Notify Created example_event_a 1000000 example_fs # []
            @ Notify Modified example_event_a 1500000 example_fs_changed
              # [Notify Modified example_event_a 1800000 example_fs_changed]
            @ [CleanupTick 4000000])))
       = [\<lparr> file_path = ''/repo/a.py'', event_type = Modified, timestamp = 1500000,
            file_size = 5, file_hash = ''h9'' \<rparr>]"
    by (simp add: m e r)
  have accs: "accepted get_default_config Created example_event_a ''/repo/a.py''"
    "accepted get_default_config Deleted example_event_a ''/repo/a.py''"
    "accepted get_default_config Modified example_event_a ''/repo/a.py''"
    using acc [OF c(1)] acc [OF c(2)] acc [OF c(3)] by (simp_all add: m e)
  show ?thesis
    using m(1) accs one two by (simp add: e h)
qed

subsection \<open>Shutdown\<close>

text \<open>
  On a started monitor whose executor accepts tasks, \<^verbatim>\<open>stop_monitoring\<close> submits a non-empty
  accumulation as one task, and every queued task has run when it returns.
\<close>

lemma stop_flushes_accumulation:
  assumes "thread_started (observer m)"
      and "\<not> shutdown_flag (executor m)"
      and "pending_changes m \<noteq> []"
  shows "fst (stop_monitoring m now) = None
     \<and> pending_changes (snd (stop_monitoring m now)) = []
     \<and> work_queue (executor (snd (stop_monitoring m now))) = []
     \<and> calls (snd (stop_monitoring m now))
         = calls m
           @ concat (map (process_change_batch (change_callbacks m))
                       (work_queue (executor m) @ [pending_changes m]))"
  using assms
  by (simp add: stop_monitoring_def Let_def observer_stop_def observer_join_def
        trigger_batch_processing_def submit_def executor_shutdown_def)


text \<open>
  Claim C2. The code at an input where the claim fails: a record that is still pending in
  \<^verbatim>\<open>recent_events\<close> when \<^verbatim>\<open>stop_monitoring\<close> is called is not handed to any callback before
  it returns, and it stays in the handler. The round of the cleanup thread that later
  settles it triggers a flush, \<^verbatim>\<open>submit\<close> raises \<^verbatim>\<open>RuntimeError\<close> on the executor that was
  shut down, and the record is in no queue and no callback has seen it.
\<close>

theorem stop_loses_unsettled_record:
  "fst (step (run (new_FileMonitor None ''/repo'' 0)
               [AddCallback (\<lambda>batch. Returned), Start,
                Notify Created example_event_a 1000000 example_fs])
          (Stop 1500000)) = None
   \<and> calls example_stopped = []
   \<and> pending_changes example_stopped = []
   \<and> work_queue (executor example_stopped) = []
   \<and> recent_events (event_handler example_stopped)
       = [(''/repo/a.py'',
           \<lparr> file_path = ''/repo/a.py'', event_type = Created, timestamp = 1000000,
             file_size = 2, file_hash = ''h1'' \<rparr>)]
   \<and> fst (step example_stopped (CleanupTick 40000000))
       = Some (RuntimeError ''cannot schedule new futures after shutdown'')
   \<and> recent_events (event_handler (run example_stopped [CleanupTick 40000000])) = []
   \<and> pending_changes (run example_stopped [CleanupTick 40000000]) = []
   \<and> work_queue (executor (run example_stopped [CleanupTick 40000000])) = []
   \<and> calls (run example_stopped [CleanupTick 40000000, WorkerRun]) = []"
  unfolding example_stopped_def by code_simp

subsection \<open>Lifecycle\<close>

text \<open>
  Claim C6, as stated, fails: a second \<^verbatim>\<open>start_monitoring\<close> raises \<^verbatim>\<open>RuntimeError\<close>, and so
  does \<^verbatim>\<open>stop_monitoring\<close> on a monitor that was never started.
\<close>

theorem second_start_raises:
  "fst (step (run (new_FileMonitor None ''/repo'' 0) [Start]) Start)
     = Some (RuntimeError ''threads can only be started once'')
   \<and> fst (step (new_FileMonitor None ''/repo'' 0) (Stop 1000000))
     = Some (RuntimeError ''cannot join thread before it is started'')"
  by code_simp


text \<open>
  Claim C6, amended. \<^verbatim>\<open>start_monitoring\<close> succeeds on a monitor whose observer thread was
  never started and raises \<^verbatim>\<open>RuntimeError\<close> on one whose observer thread was started before;
  \<^verbatim>\<open>stop_monitoring\<close> raises \<^verbatim>\<open>RuntimeError\<close> on a monitor that was never started, and on a
  started monitor whose executor accepts tasks it returns normally, with the observer no
  longer alive and the executor shut down.
\<close>

theorem lifecycle_follows_observer_thread:
  "(\<not> thread_started (observer m) \<longrightarrow>
      fst (start_monitoring m) = None
      \<and> is_alive (observer (snd (start_monitoring m))) = (\<not> stop_requested (observer m))
      \<and> thread_started (observer (snd (start_monitoring m))))
   \<and> (thread_started (observer m) \<longrightarrow>
      fst (start_monitoring m) = Some (RuntimeError ''threads can only be started once''))
   \<and> (\<not> thread_started (observer m) \<longrightarrow>
      fst (stop_monitoring m now) = Some (RuntimeError ''cannot join thread before it is started''))
   \<and> (thread_started (observer m) \<and> \<not> shutdown_flag (executor m) \<longrightarrow>
      fst (stop_monitoring m now) = None
      \<and> \<not> is_alive (observer (snd (stop_monitoring m now)))
      \<and> shutdown_flag (executor (snd (stop_monitoring m now))))"
  by (auto simp: start_monitoring_def stop_monitoring_def Let_def schedule_def observer_start_def
        observer_stop_def observer_join_def is_alive_def executor_shutdown_def
        trigger_batch_processing_def submit_def
      split: sum.splits prod.splits option.splits if_splits)


theorem lifecycle_follows_observer_thread_witness:
  "\<not> thread_started (observer (new_FileMonitor None ''/repo'' 0))
   \<and> fst (start_monitoring (new_FileMonitor None ''/repo'' 0)) = None
   \<and> thread_started (observer example_started)
   \<and> fst (start_monitoring example_started)
       = Some (RuntimeError ''threads can only be started once'')
   \<and> fst (stop_monitoring (new_FileMonitor None ''/repo'' 0) 1000000)
       = Some (RuntimeError ''cannot join thread before it is started'')
   \<and> fst (stop_monitoring example_started 1000000) = None"
proof -
  have fresh: "\<not> thread_started (observer (new_FileMonitor None ''/repo'' 0))"
    by (simp add: new_FileMonitor_def Let_def)
  have started: "thread_started (observer example_started)"
    and op: "\<not> shutdown_flag (executor example_started)"
    unfolding example_started_def by code_simp+
  from lifecycle_follows_observer_thread [of "new_FileMonitor None ''/repo'' 0" 1000000]
    lifecycle_follows_observer_thread [of example_started 1000000]
    fresh started op
  show ?thesis by blast
qed

subsection \<open>Statistics\<close>

lemma trigger_stats:
  "total_events (stats (snd (trigger_batch_processing m now))) = total_events (stats m)"
  "processed_batches (stats (snd (trigger_batch_processing m now)))
     = (if pending_changes m = [] then processed_batches (stats m)
        else processed_batches (stats m) + 1)"
  by (simp_all add: trigger_batch_processing_def submit_def Let_def split: sum.splits)

lemma trigger_noop: "pending_changes m = [] \<Longrightarrow> trigger_batch_processing m now = (None, m)"
  by (simp add: trigger_batch_processing_def)

lemma process_file_change_stats:
  "total_events (stats (snd (process_file_change m event now))) = total_events (stats m) + 1"
  "processed_batches (stats m) \<le> processed_batches (stats (snd (process_file_change m event now)))"
  by (simp_all add: process_file_change_def Let_def trigger_stats)

lemma settle_expired_stats:
  "total_events (stats m) \<le> total_events (stats (snd (settle_expired m ps now)))
   \<and> processed_batches (stats m) \<le> processed_batches (stats (snd (settle_expired m ps now)))"
proof (induction ps arbitrary: m)
  case Nil
  show ?case by simp
next
  case (Cons p ps)
  show ?case
  proof (cases "map_of (recent_events (event_handler m)) p")
    case None
    then show ?thesis by simp
  next
    case (Some event)
    define m1 where "m1 = m\<lparr>event_handler := (event_handler m)
        \<lparr>recent_events := AList.delete p (recent_events (event_handler m))\<rparr>\<rparr>"
    obtain err m2 where pfc: "process_file_change m1 event now = (err, m2)"
      by (cases "process_file_change m1 event now")
    have m2: "total_events (stats m) \<le> total_events (stats m2)"
      "processed_batches (stats m) \<le> processed_batches (stats m2)"
      using process_file_change_stats [of m1 event now] pfc by (simp_all add: m1_def)
    show ?thesis
    proof (cases err)
      case None
      with Some pfc m2 Cons.IH [of m2] show ?thesis
        by (simp add: Let_def m1_def [symmetric])
    next
      case (Some e)
      with \<open>map_of (recent_events (event_handler m)) p = Some event\<close> pfc m2 show ?thesis
        by (simp add: Let_def m1_def [symmetric])
    qed
  qed
qed

lemma step_stats:
  "total_events (stats m) \<le> total_events (stats (snd (step m a)))
   \<and> processed_batches (stats m) \<le> processed_batches (stats (snd (step m a)))"
proof (cases a)
  case (Notify k event now fs)
  then show ?thesis by (simp add: dispatch_def)
next
  case (CleanupTick now)
  then show ?thesis by (simp add: cleanup_old_events_def settle_expired_stats)
next
  case (TimerTick now)
  then show ?thesis by (simp add: timer_callback_def trigger_stats)
next
  case WorkerRun
  then show ?thesis by (simp add: worker_run_def split: list.splits)
next
  case (AddCallback cb)
  then show ?thesis by (simp add: add_change_callback_def)
next
  case (ForceProcess now)
  then show ?thesis by (simp add: force_process_changes_def trigger_stats)
next
  case Start
  then show ?thesis by (simp add: start_monitoring_def Let_def split: sum.splits)
next
  case (Stop now)
  define m1 where "m1 = m\<lparr>observer := observer_stop (observer m)\<rparr>"
  have s1: "stats m1 = stats m" by (simp add: m1_def)
  obtain err m2 where t: "trigger_batch_processing m1 now = (err, m2)"
    by (cases "trigger_batch_processing m1 now")
  have m2: "total_events (stats m) \<le> total_events (stats m2)"
    "processed_batches (stats m) \<le> processed_batches (stats m2)"
    using trigger_stats [of m1 now] t s1 by (simp_all split: if_splits)
  show ?thesis
    using Stop s1 t m2
    by (cases err)
       (auto simp: stop_monitoring_def Let_def m1_def [symmetric] executor_shutdown_def
             split: sum.splits)
qed

lemma run_stats:
  "total_events (stats m) \<le> total_events (stats (run m as))
   \<and> processed_batches (stats m) \<le> processed_batches (stats (run m as))"
proof (induction as arbitrary: m)
  case Nil
  show ?case by (simp add: run_def)
next
  case (Cons a as)
  from step_stats [of m a] Cons.IH [of "snd (step m a)"]
  show ?case by (simp add: run_def)
qed


lemma trigger_empties_accumulation:
  "pending_changes (snd (trigger_batch_processing m now)) = []"
  by (simp add: trigger_batch_processing_def submit_def Let_def split: sum.splits)

text \<open>
  Claim C8, as stated, fails: a notification that is received and recorded leaves
  \<^verbatim>\<open>total_events\<close> at 0, and the pending count of \<^verbatim>\<open>get_stats\<close> falls from 1 to 0 at a flush.
\<close>

theorem notification_counts_nothing:
  "total_events (stats (run (new_FileMonitor None ''/repo'' 0)
      [Start, Notify Created example_event_a 1000000 example_fs])) = 0
   \<and> map fst (recent_events (event_handler (run (new_FileMonitor None ''/repo'' 0)
      [Start, Notify Created example_event_a 1000000 example_fs]))) = [''/repo/a.py'']
   \<and> pending_changes_count (get_stats (run (new_FileMonitor None ''/repo'' 0)
      [Start, Notify Created example_event_a 1000000 example_fs, CleanupTick 4000000])
        5000000) = 1
   \<and> pending_changes_count (get_stats (run (new_FileMonitor None ''/repo'' 0)
      [Start, Notify Created example_event_a 1000000 example_fs, CleanupTick 4000000,
       ForceProcess 5000000]) 5000000) = 0"
  by code_simp


text \<open>
  Claim C8, amended. The counters \<^verbatim>\<open>total_events\<close> and \<^verbatim>\<open>processed_batches\<close> start at 0 and
  never decrease along a run; \<^verbatim>\<open>total_events\<close> grows by one for every record settled into
  \<^verbatim>\<open>_process_file_change\<close>, and neither a notification nor a flush changes it;
  \<^verbatim>\<open>processed_batches\<close> grows by one for every flush of a non-empty accumulation, and neither
  a notification nor a flush attempt on an empty accumulation changes it; \<^verbatim>\<open>get_stats\<close>
  reports both counters and, as the pending count, the current length of
  \<^verbatim>\<open>pending_changes\<close>, which is 0 after every flush.
\<close>

theorem counters_count_settled_records_and_flushes:
  "total_events (stats m) \<le> total_events (stats (run m as))
   \<and> processed_batches (stats m) \<le> processed_batches (stats (run m as))
   \<and> total_events (stats (snd (process_file_change m event now))) = total_events (stats m) + 1
   \<and> total_events (stats (dispatch m kind raw now fs)) = total_events (stats m)
   \<and> processed_batches (stats (dispatch m kind raw now fs)) = processed_batches (stats m)
   \<and> (pending_changes m \<noteq> [] \<longrightarrow>
         processed_batches (stats (snd (trigger_batch_processing m now)))
           = processed_batches (stats m) + 1)
   \<and> (pending_changes m = [] \<longrightarrow>
         processed_batches (stats (snd (trigger_batch_processing m now)))
           = processed_batches (stats m))
   \<and> total_events (stats (snd (trigger_batch_processing m now))) = total_events (stats m)
   \<and> total_events (stats (new_FileMonitor parsed dir now)) = 0
   \<and> processed_batches (stats (new_FileMonitor parsed dir now)) = 0
   \<and> total_events (get_stats m now) = total_events (stats m)
   \<and> processed_batches (get_stats m now) = processed_batches (stats m)
   \<and> pending_changes_count (get_stats m now) = length (pending_changes m)
   \<and> pending_changes_count (get_stats (snd (trigger_batch_processing m now)) later) = 0"
  using run_stats [of m as] process_file_change_stats(1) [of m event now]
    trigger_stats [of m now] trigger_empties_accumulation [of m now]
  by (simp add: dispatch_def get_stats_def new_FileMonitor_def Let_def)

theorem counters_count_settled_records_and_flushes_witness:
  "total_events (stats (run example_started
      [Notify Created example_event_a 1000000 example_fs, CleanupTick 4000000,
       ForceProcess 5000000])) = 1
   \<and> processed_batches (stats (run example_started
      [Notify Created example_event_a 1000000 example_fs, CleanupTick 4000000,
       ForceProcess 5000000])) = 1
   \<and> total_events (stats example_started)
       \<le> total_events (stats (run example_started
      [Notify Created example_event_a 1000000 example_fs, CleanupTick 4000000,
       ForceProcess 5000000]))
   \<and> pending_changes (run example_started
      [Notify Created example_event_a 1000000 example_fs, CleanupTick 4000000]) \<noteq> []
   \<and> processed_batches (stats (snd (trigger_batch_processing (run example_started
      [Notify Created example_event_a 1000000 example_fs, CleanupTick 4000000]) 5000000)))
       = processed_batches (stats (run example_started
      [Notify Created example_event_a 1000000 example_fs, CleanupTick 4000000])) + 1
   \<and> pending_changes_count (get_stats (run example_started
      [Notify Created example_event_a 1000000 example_fs, CleanupTick 4000000]) 5000000) = 1
   \<and> pending_changes_count (get_stats (snd (trigger_batch_processing (run example_started
      [Notify Created example_event_a 1000000 example_fs, CleanupTick 4000000]) 5000000))
        6000000) = 0"
proof -
  let ?as = "[Notify Created example_event_a 1000000 example_fs, CleanupTick 4000000,
       ForceProcess 5000000]"
  let ?m = "run example_started
      [Notify Created example_event_a 1000000 example_fs, CleanupTick 4000000]"
  have vals: "total_events (stats (run example_started ?as)) = 1"
    "processed_batches (stats (run example_started ?as)) = 1"
    unfolding example_started_def by code_simp+
  have ne: "pending_changes ?m \<noteq> []"
    and one: "pending_changes_count (get_stats ?m 5000000) = 1"
    unfolding example_started_def by code_simp+
  from counters_count_settled_records_and_flushes [of example_started ?as]
  have mono: "total_events (stats example_started) \<le> total_events (stats (run example_started ?as))"
    by blast
  note at_m = counters_count_settled_records_and_flushes [of ?m _ _ 5000000 _ _ _ _ _ 6000000]
  from at_m ne
  have flush: "processed_batches (stats (snd (trigger_batch_processing ?m 5000000)))
       = processed_batches (stats ?m) + 1"
    by blast
  from at_m
  have zero: "pending_changes_count (get_stats (snd (trigger_batch_processing ?m 5000000))
        6000000) = 0"
    by blast
  from vals ne one mono flush zero show ?thesis by blast
qed

end
